theory Spec2Isabelle
  imports Main "HOL-Library.AList"
begin

section \<open>Output models read by the views\<close>

text \<open>
  The views of \<^verbatim>\<open>views.ts\<close> read the models declared in \<^verbatim>\<open>models.ts\<close>. A JSON value is
  an opaque payload for the views; a \<^verbatim>\<open>ReadonlyJSONObject\<close> is a list of key/value pairs in
  insertion order.
\<close>

datatype json =
    JNull
  | JBool bool
  | JNumber int
  | JString string
  | JArray "json list"
  | JObject "(string \<times> json) list"

type_synonym ReadonlyJSONObject = "(string \<times> json) list"

definition emptyObject :: ReadonlyJSONObject where
  \<comment> \<open>\<^verbatim>\<open>JSONExt.emptyObject\<close>\<close>
  "emptyObject = []"

text \<open>
  Modelled from the spec: the \<^verbatim>\<open>OutputItem\<close> declarations of \<^verbatim>\<open>models.ts\<close> (section 3 of the
  specification), restricted to the fields that \<^verbatim>\<open>views.ts\<close> reads. The \<^verbatim>\<open>type\<close> tag is the
  string the code switches on; \<^verbatim>\<open>traceback\<close> is the string that \<^verbatim>\<open>formatError\<close> returns
  when it is truthy, that is, non-empty.
\<close>

record OutputItem =
  item_type :: string
  trusted :: bool
  data :: ReadonlyJSONObject
  metadata :: ReadonlyJSONObject
  name :: string
  stream_text :: string
  ename :: string
  evalue :: string
  traceback :: string

text \<open>
  Modelled from the spec: the \<^verbatim>\<open>OutputArea\<close> declaration of \<^verbatim>\<open>models.ts\<close>, with the two
  fields that the area view unpacks.
\<close>

record OutputArea =
  area_trusted :: bool
  outputItemIds :: "string list"

text \<open>
  Models are immutable objects compared with \<^verbatim>\<open>===\<close>. An object is its address together
  with its contents, so that equality of two objects is identity, and two objects with the
  same contents at different addresses are different.
\<close>

datatype 'a obj = Obj (addr: nat) (contents: 'a)

text \<open>
  Modelled from the spec: the contents of the two default models, \<^verbatim>\<open>new OutputArea()\<close> and
  \<^verbatim>\<open>new DisplayDataOutput()\<close>, whose constructors are in \<^verbatim>\<open>models.ts\<close>: an empty output area
  and an empty display-data item.
\<close>

definition emptyArea :: "OutputArea obj" where
  "emptyArea = Obj 0 \<lparr>area_trusted = False, outputItemIds = []\<rparr>"

definition emptyItem :: "OutputItem obj" where
  "emptyItem = Obj 1 \<lparr>item_type = ''display_data'', trusted = False, data = [],
     metadata = [], name = [], stream_text = [], ename = [], evalue = [], traceback = []\<rparr>"

record OutputStoreState =
  outputAreaTable :: "string \<rightharpoonup> OutputArea obj"
  outputItemTable :: "string \<rightharpoonup> OutputItem obj"

section \<open>Mime data of an output item\<close>

definition formatError :: "OutputItem \<Rightarrow> string" where
  "formatError item =
     (if traceback item \<noteq> [] then traceback item else ename item @ '': '' @ evalue item)"

definition getData :: "OutputItem \<Rightarrow> ReadonlyJSONObject" where
  "getData item =
     (if item_type item = ''execute_result'' \<or> item_type item = ''display_data'' then data item
      else if item_type item = ''stream''
        then [(''application/vnd.jupyter.'' @ name item, JString (stream_text item))]
      else if item_type item = ''error''
        then [(''application/vnd.jupyter.stderr'', JString (formatError item))]
      else emptyObject)"

definition getMetadata :: "OutputItem \<Rightarrow> ReadonlyJSONObject" where
  "getMetadata item =
     (if item_type item = ''execute_result'' \<or> item_type item = ''display_data''
        then metadata item
      else emptyObject)"

section \<open>Messages and the message loop\<close>

text \<open>
  Modelled from the spec: \<^verbatim>\<open>ConflatableMessage\<close> and \<^verbatim>\<open>MessageLoop.postMessage\<close> belong to the
  messaging library, which is not part of the repository sources. Section 5 of the
  specification: a refresh request is not performed inside the notification that posts it;
  a request posted for a node that already has a pending one is conflated with it rather
  than queued a second time. A handler is named by the reference of its widget.
\<close>

record Message =
  msg_type :: string
  isConflatable :: bool

definition RefreshRequest :: Message where
  \<comment> \<open>\<^verbatim>\<open>Private.RefreshRequest = new ConflatableMessage('refresh-request')\<close>\<close>
  "RefreshRequest = \<lparr>msg_type = ''refresh-request'', isConflatable = True\<rparr>"

type_synonym MessageQueue = "(nat \<times> Message) list"

definition postMessage :: "nat \<Rightarrow> Message \<Rightarrow> MessageQueue \<Rightarrow> MessageQueue" where
  "postMessage handler msg queue =
     (if isConflatable msg
         \<and> list_ex (\<lambda>(h, m). h = handler \<and> isConflatable m \<and> msg_type m = msg_type msg) queue
      then queue
      else queue @ [(handler, msg)])"

definition refresh :: "nat \<Rightarrow> MessageQueue \<Rightarrow> MessageQueue" where
  \<comment> \<open>\<^verbatim>\<open>refresh()\<close> of both views: \<^verbatim>\<open>MessageLoop.postMessage(this, Private.RefreshRequest)\<close>\<close>
  "refresh handler queue = postMessage handler RefreshRequest queue"

definition pendingRefreshes :: "nat \<Rightarrow> MessageQueue \<Rightarrow> nat" where
  \<comment> \<open>how many times the loop will hand a refresh request to the handler\<close>
  "pendingRefreshes handler queue =
     length (filter (\<lambda>(h, m). h = handler \<and> msg_type m = ''refresh-request'') queue)"

definition toggleClass :: "string \<Rightarrow> bool \<Rightarrow> string list \<Rightarrow> string list" where
  \<comment> \<open>\<^verbatim>\<open>Widget.toggleClass(name, force)\<close>: add the class when \<open>force\<close>, remove it otherwise\<close>
  "toggleClass c force cs =
     (if force then (if c \<in> set cs then cs else cs @ [c]) else removeAll c cs)"

section \<open>The output item view\<close>

text \<open>
  Modelled from the spec: the renderer and the rendermime registry (section 6 of the
  specification) are collaborators outside the repository sources. A renderer is an object
  created for one mime type that shows the model it rendered last; the registry is its
  \<^verbatim>\<open>preferredMimeType\<close> function, and \<^verbatim>\<open>createRenderer\<close> allocates a new renderer object.
  The \<^verbatim>\<open>setData\<close> callback of a mime model is the view's own \<^verbatim>\<open>_setData\<close>, named here by
  the item id it dispatches for.
\<close>

record MimeModel =
  model_trusted :: bool
  model_data :: ReadonlyJSONObject
  model_metadata :: ReadonlyJSONObject
  model_setData :: string

record Renderer =
  renderer_ref :: nat
  renderer_mimeType :: string
  renderer_classes :: "string list"
  rendered :: "MimeModel option"

type_synonym RenderMime = "ReadonlyJSONObject \<Rightarrow> bool \<Rightarrow> string option"

datatype renderer_call =
    CreateRenderer nat string
  | RenderModel nat MimeModel
  | DisposeRenderer nat

text \<open>
  The state of an \<^verbatim>\<open>OutputItemView\<close>: its fields, the two data attributes of its node, the
  widget of its singleton layout, and, from its environment, the next free object
  reference and the calls made to renderers so far.
\<close>

record OutputItemView =
  view_ref :: nat
  itemId :: string
  item :: "OutputItem obj"
  view_classes :: "string list"
  dataset_outputType :: "string option"
  dataset_mimeType :: "string option"
  layout_widget :: "Renderer option"
  heap_next :: nat
  calls :: "renderer_call list"

definition new_OutputItemView :: "nat \<Rightarrow> string \<Rightarrow> OutputItemView" where
  \<comment> \<open>the constructor: \<^verbatim>\<open>_item\<close> starts as \<^verbatim>\<open>Private.emptyItem\<close>, the layout is empty\<close>
  "new_OutputItemView r k =
     \<lparr>view_ref = r, itemId = k, item = emptyItem, view_classes = [''jp-OutputItemView''],
      dataset_outputType = None, dataset_mimeType = None, layout_widget = None,
      heap_next = Suc r, calls = []\<rparr>"

text \<open>
  Modelled from the spec: the \<^verbatim>\<open>widget\<close> setter of the toolkit's \<^verbatim>\<open>SingletonLayout\<close>, which
  keeps the widget when it is given the one it holds, and otherwise disposes of the old
  widget before it holds the new one.
\<close>

definition set_layout_widget :: "Renderer option \<Rightarrow> OutputItemView \<Rightarrow> OutputItemView" where
  "set_layout_widget w v =
     (if map_option renderer_ref w = map_option renderer_ref (layout_widget v) then v
      else (case layout_widget v of
              None \<Rightarrow> v\<lparr>layout_widget := w\<rparr>
            | Some old \<Rightarrow>
                v\<lparr>layout_widget := w, calls := calls v @ [DisposeRenderer (renderer_ref old)]\<rparr>))"

definition mimeModel :: "OutputItemView \<Rightarrow> MimeModel" where
  \<comment> \<open>\<^verbatim>\<open>{ trusted, data, metadata, setData }\<close>\<close>
  "mimeModel v =
     \<lparr>model_trusted = trusted (contents (item v)),
      model_data = getData (contents (item v)),
      model_metadata = getMetadata (contents (item v)),
      model_setData = itemId v\<rparr>"

definition preferred :: "RenderMime \<Rightarrow> OutputItemView \<Rightarrow> string" where
  \<comment> \<open>\<^verbatim>\<open>this.rendermime.preferredMimeType(data, !trusted) || ''\<close>\<close>
  "preferred rendermime v =
     (case rendermime (getData (contents (item v))) (\<not> trusted (contents (item v))) of
        None \<Rightarrow> []
      | Some t \<Rightarrow> t)"

definition onRefreshRequest_item :: "RenderMime \<Rightarrow> OutputItemView \<Rightarrow> OutputItemView" where
  "onRefreshRequest_item rendermime v =
     (let renderer = layout_widget v;
          model = mimeModel v;
          mimeType = preferred rendermime v;
          oldMimeType = dataset_mimeType v;
          v1 = v\<lparr>view_classes :=
                   toggleClass ''jp-mod-trusted'' (trusted (contents (item v))) (view_classes v),
                 dataset_outputType := Some (item_type (contents (item v))),
                 dataset_mimeType := Some mimeType\<rparr>
      in case (if oldMimeType = Some mimeType then renderer else None) of
           Some r \<Rightarrow>
             v1\<lparr>layout_widget := Some (r\<lparr>rendered := Some model\<rparr>),
                calls := calls v1 @ [RenderModel (renderer_ref r) model]\<rparr>
         | None \<Rightarrow>
             if mimeType = [] then set_layout_widget None v1
             else
               (let r = \<lparr>renderer_ref = heap_next v1, renderer_mimeType = mimeType,
                         renderer_classes = [''jp-OutputItemView-renderer''],
                         rendered = Some model\<rparr>
                in set_layout_widget (Some r)
                     (v1\<lparr>heap_next := Suc (heap_next v1),
                         calls := calls v1 @ [CreateRenderer (heap_next v1) mimeType,
                                              RenderModel (heap_next v1) model]\<rparr>)))"

definition processMessage_item :: "RenderMime \<Rightarrow> Message \<Rightarrow> OutputItemView \<Rightarrow> OutputItemView" where
  \<comment> \<open>any other message goes to the widget base class, which touches none of these fields\<close>
  "processMessage_item rendermime msg v =
     (if msg_type msg = ''refresh-request'' then onRefreshRequest_item rendermime v else v)"

definition onStoreChanged_item ::
  "OutputStoreState \<Rightarrow> OutputItemView \<times> MessageQueue \<Rightarrow> OutputItemView \<times> MessageQueue" where
  "onStoreChanged_item state = (\<lambda>(v, queue).
     (let item' = (case outputItemTable state (itemId v) of None \<Rightarrow> emptyItem | Some x \<Rightarrow> x)
      in if item v = item' then (v, queue)
         else (v\<lparr>item := item'\<rparr>, refresh (view_ref v) queue)))"

definition rendererBound :: "OutputItemView \<Rightarrow> bool" where
  \<comment> \<open>the renderer in the layout was created for the recorded mime type, before \<open>heap_next\<close>\<close>
  "rendererBound v =
     (case layout_widget v of
        None \<Rightarrow> True
      | Some r \<Rightarrow>
          dataset_mimeType v = Some (renderer_mimeType r) \<and> renderer_mimeType r \<noteq> []
          \<and> renderer_ref r < heap_next v)"

section \<open>The output area view\<close>

text \<open>
  A child of the area's panel layout is an object: its reference, and for an
  \<^verbatim>\<open>OutputItemView\<close> the item id it was constructed with (a read-only field). Equality of
  two children is identity of the objects.
\<close>

datatype Widget = ItemView (wref: nat) string | OtherWidget (wref: nat)

fun isItemView :: "Widget \<Rightarrow> bool" where
  \<comment> \<open>\<^verbatim>\<open>widget instanceof OutputItemView\<close>\<close>
  "isItemView (ItemView r k) = True"
| "isItemView (OtherWidget r) = False"

fun itemIds_of :: "Widget list \<Rightarrow> string list" where
  \<comment> \<open>the item ids of the item views of a child list, in order\<close>
  "itemIds_of [] = []"
| "itemIds_of (ItemView r k # ws) = k # itemIds_of ws"
| "itemIds_of (OtherWidget r # ws) = itemIds_of ws"

datatype layout_op = Create Widget | InsertWidget nat Widget | Dispose Widget

fun op_widget :: "layout_op \<Rightarrow> Widget" where
  "op_widget (Create w) = w"
| "op_widget (InsertWidget i w) = w"
| "op_widget (Dispose w) = w"

text \<open>
  Modelled from the spec: the child list of the toolkit's \<^verbatim>\<open>PanelLayout\<close> (ordered child
  insertion and removal by position, section 6 of the specification). \<^verbatim>\<open>insertWidget\<close>
  clamps the index, inserts a widget that is not a child yet and moves one that is;
  disposing of a widget removes it from the child list of its parent.
\<close>

fun indexOf :: "'a \<Rightarrow> 'a list \<Rightarrow> nat option" where
  "indexOf w [] = None"
| "indexOf w (x # xs) = (if x = w then Some 0 else map_option Suc (indexOf w xs))"

definition ArrayExt_insert :: "nat \<Rightarrow> 'a \<Rightarrow> 'a list \<Rightarrow> 'a list" where
  "ArrayExt_insert j w ws = take j ws @ w # drop j ws"

definition ArrayExt_removeAt :: "nat \<Rightarrow> 'a list \<Rightarrow> 'a list" where
  "ArrayExt_removeAt i ws = take i ws @ drop (Suc i) ws"

definition insertWidget :: "nat \<Rightarrow> Widget \<Rightarrow> Widget list \<Rightarrow> Widget list" where
  "insertWidget index w ws =
     (let j = min index (length ws) in
      case indexOf w ws of
        None \<Rightarrow> ArrayExt_insert j w ws
      | Some i \<Rightarrow>
          (let j' = (if j = length ws then j - 1 else j) in
           if i = j' then ws else ArrayExt_insert j' w (ArrayExt_removeAt i ws)))"

definition removeWidget :: "Widget \<Rightarrow> Widget list \<Rightarrow> Widget list" where
  "removeWidget w ws =
     (case indexOf w ws of None \<Rightarrow> ws | Some i \<Rightarrow> ArrayExt_removeAt i ws)"

definition widgetAt :: "Widget list \<Rightarrow> nat \<Rightarrow> Widget option" where
  \<comment> \<open>\<^verbatim>\<open>layout.widgets[i]\<close>, undefined beyond the end\<close>
  "widgetAt ws i = (if i < length ws then Some (ws ! i) else None)"

text \<open>
  The state of an \<^verbatim>\<open>OutputAreaView\<close>: its fields, the children of its layout, and, from its
  environment, the next free object reference and the operations performed on child views
  so far (a view constructed, \<^verbatim>\<open>insertWidget\<close> called, a view disposed of).
\<close>

record OutputAreaView =
  area_view_ref :: nat
  areaId :: string
  area :: "OutputArea obj"
  area_classes :: "string list"
  widgets :: "Widget list"
  next_ref :: nat
  oplog :: "layout_op list"

definition new_OutputAreaView :: "nat \<Rightarrow> string \<Rightarrow> OutputAreaView" where
  \<comment> \<open>the constructor: \<^verbatim>\<open>_area\<close> starts as \<^verbatim>\<open>Private.emptyArea\<close>, the layout has no child\<close>
  "new_OutputAreaView r k =
     \<lparr>area_view_ref = r, areaId = k, area = emptyArea, area_classes = [''jp-OutputAreaView''],
      widgets = [], next_ref = Suc r, oplog = []\<rparr>"

text \<open>
  The temporary \<^verbatim>\<open>itemIdMap\<close> is a plain JavaScript object. Its own keys are an association
  list in insertion order; assigning to a key it has keeps the key's place. Besides its
  own keys, \<^verbatim>\<open>itemId in itemIdMap\<close> and \<^verbatim>\<open>itemIdMap[itemId]\<close> find the properties that every
  object inherits from \<^verbatim>\<open>Object.prototype\<close>, here those of a standard environment. The order
  in which \<^verbatim>\<open>for ... in\<close> visits the leftover keys decides only the order of the disposals.
\<close>

definition objectPrototypeNames :: "string list" where
  "objectPrototypeNames =
     [''constructor'', ''__defineGetter__'', ''__defineSetter__'', ''hasOwnProperty'',
      ''__lookupGetter__'', ''__lookupSetter__'', ''isPrototypeOf'', ''propertyIsEnumerable'',
      ''toString'', ''valueOf'', ''__proto__'', ''toLocaleString'']"

text \<open>
  A run of the area refresh that does not reach its end. \<open>TypeError\<close>: an id that is not an
  own key of the lookup is an inherited name, so the code takes the inherited value for
  the view and constructs none; the value is not a widget, \<^verbatim>\<open>insertWidget\<close> puts it into the
  child list and raises when it attaches it, and neither the rest of the loop nor the sweep
  of stale views is performed. \<open>PrototypeReplaced\<close>: a live item view carries the id
  \<^verbatim>\<open>__proto__\<close>, so the assignment in the collecting loop enters no key and makes the view
  the prototype of the lookup; what the run finds from there depends on every property of
  the widget object, which the toolkit defines, and the run is not followed further.
\<close>

datatype stop = TypeError | PrototypeReplaced

fun collectItemViews ::
  "Widget list \<Rightarrow> (string \<times> Widget) list \<Rightarrow> (string \<times> Widget) list" where
  "collectItemViews [] itemIdMap = itemIdMap"
| "collectItemViews (ItemView r k # ws) itemIdMap =
     collectItemViews ws (AList.update k (ItemView r k) itemIdMap)"
| "collectItemViews (OtherWidget r # ws) itemIdMap = collectItemViews ws itemIdMap"

definition positionAt :: "nat \<Rightarrow> Widget \<Rightarrow> OutputAreaView \<Rightarrow> OutputAreaView" where
  \<comment> \<open>\<^verbatim>\<open>if (layout.widgets[i] !== view) layout.insertWidget(i, view)\<close>\<close>
  "positionAt i view s =
     (if widgetAt (widgets s) i \<noteq> Some view
      then s\<lparr>widgets := insertWidget i view (widgets s),
             oplog := oplog s @ [InsertWidget i view]\<rparr>
      else s)"

fun synchronize ::
  "nat \<Rightarrow> string list \<Rightarrow> (string \<times> Widget) list \<times> OutputAreaView
     \<Rightarrow> stop + (string \<times> Widget) list \<times> OutputAreaView" where
  "synchronize i [] (itemIdMap, s) = Inr (itemIdMap, s)"
| "synchronize i (itemId' # rest) (itemIdMap, s) =
     (case map_of itemIdMap itemId' of
        Some view \<Rightarrow>
          synchronize (Suc i) rest (AList.delete itemId' itemIdMap, positionAt i view s)
      | None \<Rightarrow>
          if itemId' \<in> set objectPrototypeNames then Inl TypeError
          else
            (let view = ItemView (next_ref s) itemId' in
             synchronize (Suc i) rest
               (itemIdMap,
                positionAt i view
                  (s\<lparr>next_ref := Suc (next_ref s), oplog := oplog s @ [Create view]\<rparr>))))"

fun disposeStale :: "(string \<times> Widget) list \<Rightarrow> OutputAreaView \<Rightarrow> OutputAreaView" where
  "disposeStale [] s = s"
| "disposeStale ((key, v) # itemIdMap) s =
     disposeStale itemIdMap
       (s\<lparr>widgets := removeWidget v (widgets s), oplog := oplog s @ [Dispose v]\<rparr>)"

definition onRefreshRequest_area :: "OutputAreaView \<Rightarrow> stop + OutputAreaView" where
  "onRefreshRequest_area v =
     (let trusted' = area_trusted (contents (area v));
          outputItemIds' = outputItemIds (contents (area v));
          v1 = v\<lparr>area_classes := toggleClass ''jp-mod-trusted'' trusted' (area_classes v)\<rparr>
      in if ''__proto__'' \<in> set (itemIds_of (widgets v1)) then Inl PrototypeReplaced
         else
           (let itemIdMap = collectItemViews (widgets v1) []
            in case synchronize 0 outputItemIds' (itemIdMap, v1) of
                 Inl e \<Rightarrow> Inl e
               | Inr (itemIdMap', v2) \<Rightarrow> Inr (disposeStale itemIdMap' v2)))"

definition onStoreChanged_area ::
  "OutputStoreState \<Rightarrow> OutputAreaView \<times> MessageQueue \<Rightarrow> OutputAreaView \<times> MessageQueue" where
  "onStoreChanged_area state = (\<lambda>(v, queue).
     (let area' = (case outputAreaTable state (areaId v) of None \<Rightarrow> emptyArea | Some x \<Rightarrow> x)
      in if area v = area' then (v, queue)
         else (v\<lparr>area := area'\<rparr>, refresh (area_view_ref v) queue)))"

definition areaChildrenOk :: "OutputAreaView \<Rightarrow> bool" where
  \<comment> \<open>no child occurs twice, every child was allocated before \<open>next_ref\<close>, and no two
      item views among the children carry the same item id\<close>
  "areaChildrenOk v =
     (distinct (widgets v) \<and> list_all (\<lambda>w. wref w < next_ref v) (widgets v)
      \<and> distinct (itemIds_of (widgets v)))"

definition ordinaryIds :: "OutputAreaView \<Rightarrow> bool" where
  \<comment> \<open>no item id, of the model or of a live item view, is a name that objects inherit\<close>
  "ordinaryIds v =
     (list_all (\<lambda>k. k \<notin> set objectPrototypeNames) (outputItemIds (contents (area v)))
      \<and> list_all (\<lambda>k. k \<notin> set objectPrototypeNames) (itemIds_of (widgets v)))"

text \<open>
  When no id is an inherited name, every lookup is decided by the own keys and the run
  reaches its end; it is then the following total function, on which the proofs work
  (\<open>onRefreshRequest_area_ordinary\<close> below).
\<close>

fun synchronizeOwn ::
  "nat \<Rightarrow> string list \<Rightarrow> (string \<times> Widget) list \<times> OutputAreaView
     \<Rightarrow> (string \<times> Widget) list \<times> OutputAreaView" where
  "synchronizeOwn i [] (itemIdMap, s) = (itemIdMap, s)"
| "synchronizeOwn i (itemId' # rest) (itemIdMap, s) =
     (case map_of itemIdMap itemId' of
        Some view \<Rightarrow>
          synchronizeOwn (Suc i) rest (AList.delete itemId' itemIdMap, positionAt i view s)
      | None \<Rightarrow>
          (let view = ItemView (next_ref s) itemId' in
           synchronizeOwn (Suc i) rest
             (itemIdMap,
              positionAt i view
                (s\<lparr>next_ref := Suc (next_ref s), oplog := oplog s @ [Create view]\<rparr>))))"

definition refreshOwn :: "OutputAreaView \<Rightarrow> OutputAreaView" where
  "refreshOwn v =
     (let v1 = v\<lparr>area_classes :=
                  toggleClass ''jp-mod-trusted'' (area_trusted (contents (area v))) (area_classes v)\<rparr>
      in case synchronizeOwn 0 (outputItemIds (contents (area v)))
                (collectItemViews (widgets v1) [], v1) of
           (itemIdMap', v2) \<Rightarrow> disposeStale itemIdMap' v2)"

section \<open>One turn of the message loop\<close>

text \<open>
  Within one scheduling turn a view receives change notifications of the store and calls
  of \<^verbatim>\<open>refresh()\<close>, in any order; both post through \<^verbatim>\<open>refresh\<close>.
\<close>

datatype turn_event = StoreChanged OutputStoreState | RefreshCall

fun turn_item ::
  "turn_event list \<Rightarrow> OutputItemView \<times> MessageQueue \<Rightarrow> OutputItemView \<times> MessageQueue" where
  "turn_item [] c = c"
| "turn_item (StoreChanged state # es) c = turn_item es (onStoreChanged_item state c)"
| "turn_item (RefreshCall # es) (v, queue) = turn_item es (v, refresh (view_ref v) queue)"

fun turn_area ::
  "turn_event list \<Rightarrow> OutputAreaView \<times> MessageQueue \<Rightarrow> OutputAreaView \<times> MessageQueue" where
  "turn_area [] c = c"
| "turn_area (StoreChanged state # es) c = turn_area es (onStoreChanged_area state c)"
| "turn_area (RefreshCall # es) (v, queue) = turn_area es (v, refresh (area_view_ref v) queue)"

definition processMessage_area :: "Message \<Rightarrow> OutputAreaView \<Rightarrow> stop + OutputAreaView" where
  "processMessage_area msg v =
     (if msg_type msg = ''refresh-request'' then onRefreshRequest_area v else Inr v)"

text \<open>
  Modelled from the spec: at the end of the turn the loop hands every pending message to
  the \<^verbatim>\<open>processMessage\<close> of its handler, once, in the order of the queue. A run of the
  area refresh that stops leaves no state that the model describes, and the delivery to
  the view stops with it.
\<close>

fun deliver_item :: "RenderMime \<Rightarrow> MessageQueue \<Rightarrow> OutputItemView \<Rightarrow> OutputItemView" where
  "deliver_item rendermime [] v = v"
| "deliver_item rendermime ((h, msg) # queue) v =
     deliver_item rendermime queue
       (if h = view_ref v then processMessage_item rendermime msg v else v)"

fun deliver_area :: "MessageQueue \<Rightarrow> OutputAreaView \<Rightarrow> stop + OutputAreaView" where
  "deliver_area [] v = Inr v"
| "deliver_area ((h, msg) # queue) v =
     (case (if h = area_view_ref v then processMessage_area msg v else Inr v) of
        Inl e \<Rightarrow> Inl e
      | Inr v' \<Rightarrow> deliver_area queue v')"

definition onlyRefreshes :: "MessageQueue \<Rightarrow> bool" where
  \<comment> \<open>a queue of refresh requests, at most one for a handler\<close>
  "onlyRefreshes queue = (distinct (map fst queue) \<and> list_all (\<lambda>p. snd p = RefreshRequest) queue)"

section \<open>Example states\<close>

text \<open>
  An area view whose three children show the items \<open>a\<close>, \<open>b\<close>, \<open>c\<close> while the model
  lists \<open>c\<close>, \<open>a\<close>, \<open>b\<close>; a new area view whose model lists the id \<open>a\<close> twice; new area
  views whose model lists the id \<open>constructor\<close>; and an area view with two children that
  are not item views.
\<close>

definition abc :: OutputAreaView where
  "abc = \<lparr>area_view_ref = 0, areaId = ''area'',
     area = Obj 7 \<lparr>area_trusted = True, outputItemIds = [''c'', ''a'', ''b'']\<rparr>,
     area_classes = [''jp-OutputAreaView''],
     widgets = [ItemView 1 ''a'', ItemView 2 ''b'', ItemView 3 ''c''], next_ref = 8, oplog = []\<rparr>"

definition twice_a :: OutputAreaView where
  "twice_a = (new_OutputAreaView 0 ''area'')
     \<lparr>area := Obj 7 \<lparr>area_trusted = False, outputItemIds = [''a'', ''a'']\<rparr>\<rparr>"

definition abc_moved :: OutputAreaView where
  \<comment> \<open>\<open>abc\<close> after one run\<close>
  "abc_moved = \<lparr>area_view_ref = 0, areaId = ''area'',
     area = Obj 7 \<lparr>area_trusted = True, outputItemIds = [''c'', ''a'', ''b'']\<rparr>,
     area_classes = [''jp-OutputAreaView'', ''jp-mod-trusted''],
     widgets = [ItemView 3 ''c'', ItemView 1 ''a'', ItemView 2 ''b''], next_ref = 8,
     oplog = [InsertWidget 0 (ItemView 3 ''c'')]\<rparr>"

definition twice_a_once :: OutputAreaView where
  \<comment> \<open>\<open>twice_a\<close> after one run\<close>
  "twice_a_once = \<lparr>area_view_ref = 0, areaId = ''area'',
     area = Obj 7 \<lparr>area_trusted = False, outputItemIds = [''a'', ''a'']\<rparr>,
     area_classes = [''jp-OutputAreaView''],
     widgets = [ItemView 1 ''a'', ItemView 2 ''a''], next_ref = 3,
     oplog = [Create (ItemView 1 ''a''), InsertWidget 0 (ItemView 1 ''a''),
              Create (ItemView 2 ''a''), InsertWidget 1 (ItemView 2 ''a'')]\<rparr>"

definition twice_a_twice :: OutputAreaView where
  \<comment> \<open>\<open>twice_a\<close> after a second run, the operations counted from the start of that run\<close>
  "twice_a_twice = \<lparr>area_view_ref = 0, areaId = ''area'',
     area = Obj 7 \<lparr>area_trusted = False, outputItemIds = [''a'', ''a'']\<rparr>,
     area_classes = [''jp-OutputAreaView''],
     widgets = [ItemView 2 ''a'', ItemView 3 ''a'', ItemView 1 ''a''], next_ref = 4,
     oplog = [InsertWidget 0 (ItemView 2 ''a''), Create (ItemView 3 ''a''),
              InsertWidget 1 (ItemView 3 ''a'')]\<rparr>"

definition inherited_id :: OutputAreaView where
  "inherited_id = (new_OutputAreaView 0 ''area'')
     \<lparr>area := Obj 7 \<lparr>area_trusted = False, outputItemIds = [''constructor'']\<rparr>\<rparr>"

definition inherited_then_a :: OutputAreaView where
  "inherited_then_a = (new_OutputAreaView 0 ''area'')
     \<lparr>area := Obj 7 \<lparr>area_trusted = False, outputItemIds = [''constructor'', ''a'']\<rparr>\<rparr>"


text \<open>
  Items of the store, a store holding one item under the id \<open>i1\<close>, a store with empty
  tables, a registry that prefers the first mime type of a bundle, and the item view for
  \<open>i1\<close> after it has shown an item once.
\<close>

definition stdout_hi :: "OutputItem obj" where
  "stdout_hi = Obj 5 \<lparr>item_type = ''stream'', trusted = False, data = [], metadata = [],
     name = ''stdout'', stream_text = ''hi'', ename = [], evalue = [], traceback = []\<rparr>"

definition stdout_hi_there :: "OutputItem obj" where
  "stdout_hi_there = Obj 6 \<lparr>item_type = ''stream'', trusted = False, data = [], metadata = [],
     name = ''stdout'', stream_text = ''hi there'', ename = [], evalue = [], traceback = []\<rparr>"

definition stdout_hi_copy :: "OutputItem obj" where
  "stdout_hi_copy = Obj 9 (contents stdout_hi)"

definition plain_one :: "OutputItem obj" where
  "plain_one = Obj 8 \<lparr>item_type = ''display_data'', trusted = False,
     data = [(''text/plain'', JString ''1'')], metadata = [],
     name = [], stream_text = [], ename = [], evalue = [], traceback = []\<rparr>"

definition store_with :: "OutputItem obj \<Rightarrow> OutputStoreState" where
  "store_with x = \<lparr>outputAreaTable = Map.empty, outputItemTable = [''i1'' \<mapsto> x]\<rparr>"

definition cleared_store :: OutputStoreState where
  "cleared_store = \<lparr>outputAreaTable = Map.empty, outputItemTable = Map.empty\<rparr>"

definition first_key :: RenderMime where
  "first_key bundle untrusted = (case bundle of [] \<Rightarrow> None | (k, x) # rest \<Rightarrow> Some k)"

definition shown :: "OutputItem obj \<Rightarrow> OutputItemView" where
  "shown x = onRefreshRequest_item first_key ((new_OutputItemView 3 ''i1'')\<lparr>item := x\<rparr>)"


section \<open>The mime data of an item, by kind\<close>

text \<open>
  C3. The mime bundle and the metadata bundle of an output item, by kind: execute_result and
  display_data pass their data and metadata through; a stream gives one key, made of the
  stream name, carrying the text, and empty metadata; an error gives one key carrying the
  traceback when there is one and \<open>ename: evalue\<close> otherwise, and empty metadata; any other
  kind gives an empty bundle and empty metadata.
\<close>

theorem getData_getMetadata_by_kind:
  fixes item :: OutputItem
  shows "(item_type item = ''execute_result'' \<or> item_type item = ''display_data'' \<longrightarrow>
           getData item = data item \<and> getMetadata item = metadata item)
       \<and> (item_type item = ''stream'' \<longrightarrow>
           getData item = [(''application/vnd.jupyter.'' @ name item, JString (stream_text item))]
           \<and> getMetadata item = [])
       \<and> (item_type item = ''error'' \<longrightarrow>
           getData item = [(''application/vnd.jupyter.stderr'',
              JString (if traceback item = [] then ename item @ '': '' @ evalue item
                       else traceback item))]
           \<and> getMetadata item = [])
       \<and> (item_type item \<notin> {''execute_result'', ''display_data'', ''stream'', ''error''} \<longrightarrow>
           getData item = [] \<and> getMetadata item = [])"
  by (simp add: getData_def getMetadata_def formatError_def emptyObject_def)

theorem getData_getMetadata_by_kind_witness:
  "getData \<lparr>item_type = ''execute_result'', trusted = True,
        data = [(''text/plain'', JString ''1'')], metadata = [(''isolated'', JBool True)],
        name = [], stream_text = [], ename = [], evalue = [], traceback = []\<rparr>
     = [(''text/plain'', JString ''1'')]
   \<and> getMetadata \<lparr>item_type = ''display_data'', trusted = True,
        data = [(''text/html'', JString ''x'')], metadata = [(''isolated'', JBool True)],
        name = [], stream_text = [], ename = [], evalue = [], traceback = []\<rparr>
     = [(''isolated'', JBool True)]
   \<and> getData \<lparr>item_type = ''stream'', trusted = False, data = [], metadata = [],
        name = ''stdout'', stream_text = ''hi'', ename = [], evalue = [], traceback = []\<rparr>
     = [(''application/vnd.jupyter.stdout'', JString ''hi'')]
   \<and> getData \<lparr>item_type = ''error'', trusted = False, data = [], metadata = [],
        name = [], stream_text = [], ename = ''KeyError'', evalue = ''k'', traceback = []\<rparr>
     = [(''application/vnd.jupyter.stderr'', JString ''KeyError: k'')]
   \<and> getData \<lparr>item_type = ''error'', trusted = False, data = [], metadata = [],
        name = [], stream_text = [], ename = ''KeyError'', evalue = ''k'',
        traceback = ''Traceback''\<rparr>
     = [(''application/vnd.jupyter.stderr'', JString ''Traceback'')]
   \<and> getData \<lparr>item_type = ''update_display_data'', trusted = False,
        data = [(''text/plain'', JString ''1'')], metadata = [(''isolated'', JBool True)],
        name = [], stream_text = [], ename = [], evalue = [], traceback = []\<rparr>
     = []
   \<and> getMetadata \<lparr>item_type = ''update_display_data'', trusted = False,
        data = [(''text/plain'', JString ''1'')], metadata = [(''isolated'', JBool True)],
        name = [], stream_text = [], ename = [], evalue = [], traceback = []\<rparr>
     = []"
  using
    getData_getMetadata_by_kind [of "\<lparr>item_type = ''execute_result'', trusted = True,
        data = [(''text/plain'', JString ''1'')], metadata = [(''isolated'', JBool True)],
        name = [], stream_text = [], ename = [], evalue = [], traceback = []\<rparr>"]
    getData_getMetadata_by_kind [of "\<lparr>item_type = ''display_data'', trusted = True,
        data = [(''text/html'', JString ''x'')], metadata = [(''isolated'', JBool True)],
        name = [], stream_text = [], ename = [], evalue = [], traceback = []\<rparr>"]
    getData_getMetadata_by_kind [of "\<lparr>item_type = ''stream'', trusted = False, data = [],
        metadata = [], name = ''stdout'', stream_text = ''hi'', ename = [], evalue = [],
        traceback = []\<rparr>"]
    getData_getMetadata_by_kind [of "\<lparr>item_type = ''error'', trusted = False, data = [],
        metadata = [], name = [], stream_text = [], ename = ''KeyError'', evalue = ''k'',
        traceback = []\<rparr>"]
    getData_getMetadata_by_kind [of "\<lparr>item_type = ''error'', trusted = False, data = [],
        metadata = [], name = [], stream_text = [], ename = ''KeyError'', evalue = ''k'',
        traceback = ''Traceback''\<rparr>"]
    getData_getMetadata_by_kind [of "\<lparr>item_type = ''update_display_data'', trusted = False,
        data = [(''text/plain'', JString ''1'')], metadata = [(''isolated'', JBool True)],
        name = [], stream_text = [], ename = [], evalue = [], traceback = []\<rparr>"]
  by simp

section \<open>Reconciliation of the area's children\<close>

subsection \<open>The layout primitives and the walk on own keys\<close>

lemma filter_notin_id: "v \<notin> set ws \<Longrightarrow> filter (\<lambda>w. w \<noteq> v) ws = ws"
  by (induction ws) auto

lemma remove1_as_filter: "distinct ws \<Longrightarrow> remove1 v ws = filter (\<lambda>w. w \<noteq> v) ws"
  by (induction ws) (auto simp: filter_notin_id)

lemma indexOf_None: "indexOf w ws = None \<longleftrightarrow> w \<notin> set ws"
  by (induction ws) auto

lemma indexOf_append_notin:
  "w \<notin> set xs \<Longrightarrow> indexOf w (xs @ w # ys) = Some (length xs)"
  by (induction xs) auto

lemma removeWidget_remove1: "removeWidget w ws = remove1 w ws"
proof (induction ws)
  case Nil
  show ?case by (simp add: removeWidget_def)
next
  case (Cons x xs)
  show ?case
  proof (cases "x = w")
    case True
    then show ?thesis by (simp add: removeWidget_def ArrayExt_removeAt_def)
  next
    case False
    with Cons show ?thesis
      by (cases "indexOf w xs") (simp_all add: removeWidget_def ArrayExt_removeAt_def)
  qed
qed

lemma insertWidget_fresh:
  assumes "w \<notin> set (pre @ R)"
  shows "insertWidget (length pre) w (pre @ R) = pre @ w # R"
proof -
  have "indexOf w (pre @ R) = None" using assms by (simp add: indexOf_None)
  then show ?thesis by (simp add: insertWidget_def ArrayExt_insert_def)
qed

lemma insertWidget_move:
  assumes d: "distinct (pre @ R)" and m: "w \<in> set R"
  shows "insertWidget (length pre) w (pre @ R) = pre @ w # remove1 w R"
proof -
  from m obtain R1 R2 where R: "R = R1 @ w # R2" and n1: "w \<notin> set R1"
    by (meson split_list_first)
  from d R have n0: "w \<notin> set pre" by auto
  have ix: "indexOf w (pre @ R) = Some (length pre + length R1)"
    using indexOf_append_notin [of w "pre @ R1" R2] n0 n1 R by simp
  have rm: "remove1 w R = R1 @ R2" using R n1 by (simp add: remove1_append)
  show ?thesis
  proof (cases R1)
    case Nil
    then show ?thesis using ix rm R by (simp add: insertWidget_def)
  next
    case (Cons a as)
    have "ArrayExt_removeAt (length pre + length R1) (pre @ R) = pre @ R1 @ R2"
      using R by (simp add: ArrayExt_removeAt_def)
    then show ?thesis using ix rm R Cons
      by (simp add: insertWidget_def ArrayExt_insert_def)
  qed
qed

lemma widgetAt_append: "widgetAt (pre @ R) (length pre) = (case R of [] \<Rightarrow> None | x # xs \<Rightarrow> Some x)"
  by (cases R) (simp_all add: widgetAt_def)

lemma positionAt_widgets:
  assumes w: "widgets s = pre @ R" and d: "distinct (pre @ R)" and n: "v \<notin> set pre"
  shows "widgets (positionAt (length pre) v s) = pre @ v # remove1 v R"
proof (cases "v \<in> set R")
  case True
  show ?thesis
  proof (cases "widgetAt (widgets s) (length pre) = Some v")
    case True
    then obtain xs where "R = v # xs"
      using w by (auto simp: widgetAt_append split: list.splits)
    then show ?thesis using True w by (simp add: positionAt_def)
  next
    case False
    then show ?thesis
      using w d True by (simp add: positionAt_def insertWidget_move)
  qed
next
  case False
  then have r: "remove1 v R = R" by (simp add: remove1_idem)
  from False n have f: "v \<notin> set (pre @ R)" by simp
  then have "widgetAt (widgets s) (length pre) \<noteq> Some v"
    using w by (auto simp: widgetAt_append split: list.splits)
  then show ?thesis using w r insertWidget_fresh [OF f] by (simp add: positionAt_def)
qed

lemma positionAt_next_ref: "next_ref (positionAt i v s) = next_ref s"
  by (simp add: positionAt_def)

lemma synchronize_map:
  "fst (synchronizeOwn i ids (m, s)) = filter (\<lambda>p. fst p \<notin> set ids) m"
proof (induction ids arbitrary: i m s)
  case Nil
  show ?case by simp
next
  case (Cons k rest)
  show ?case
  proof (cases "map_of m k")
    case None
    then have "k \<notin> fst ` set m" by (simp add: map_of_eq_None_iff)
    then have "filter (\<lambda>p. fst p \<notin> set (k # rest)) m = filter (\<lambda>p. fst p \<notin> set rest) m"
      by (intro filter_cong) auto
    with None Cons show ?thesis by (simp add: Let_def)
  next
    case (Some v)
    have "filter (\<lambda>p. fst p \<notin> set rest) (AList.delete k m)
            = filter (\<lambda>p. fst p \<notin> set (k # rest)) m"
      by (induction m) (auto simp: AList.delete_eq)
    with Some Cons show ?thesis by simp
  qed
qed

lemma synchronize_structure:
  assumes "widgets s = pre @ R" and "length pre = i" and "distinct (pre @ R)"
    and "\<forall>w\<in>set (pre @ R). wref w < next_ref s"
    and "\<forall>k v. map_of m k = Some v \<longleftrightarrow> (v \<in> set R \<and> (\<exists>r. v = ItemView r k))"
  shows "\<exists>V. widgets (snd (synchronizeOwn i ids (m, s))) = pre @ V @ filter (\<lambda>w. w \<notin> set V) R
           \<and> itemIds_of V = ids \<and> list_all isItemView V
           \<and> distinct (pre @ V @ filter (\<lambda>w. w \<notin> set V) R)
           \<and> (\<forall>w\<in>set (pre @ V @ R). wref w < next_ref (snd (synchronizeOwn i ids (m, s))))
           \<and> (\<forall>k\<in>set ids. \<forall>v. map_of m k = Some v \<longrightarrow> v \<in> set V)"
  using assms
proof (induction ids arbitrary: i pre R m s)
  case Nil
  then show ?case by (intro exI [of _ "[]"]) simp
next
  case (Cons k rest)
  define v where "v = (case map_of m k of Some x \<Rightarrow> x | None \<Rightarrow> ItemView (next_ref s) k)"
  define m1 where "m1 = (case map_of m k of Some x \<Rightarrow> AList.delete k m | None \<Rightarrow> m)"
  define s1 where "s1 = (case map_of m k of Some x \<Rightarrow> s
     | None \<Rightarrow> s\<lparr>next_ref := Suc (next_ref s), oplog := oplog s @ [Create v]\<rparr>)"
  define s2 where "s2 = positionAt i v s1"
  have step: "synchronizeOwn i (k # rest) (m, s) = synchronizeOwn (Suc i) rest (m1, s2)"
    by (simp add: v_def m1_def s1_def s2_def Let_def split: option.splits)
  have w1: "widgets s1 = pre @ R" using Cons.prems(1) by (simp add: s1_def split: option.splits)
  have vk: "\<exists>r. v = ItemView r k"
  proof (cases "map_of m k")
    case None
    then show ?thesis by (simp add: v_def)
  next
    case (Some x)
    then have "v = x" by (simp add: v_def)
    moreover have "\<exists>r. x = ItemView r k" using Some Cons.prems(5) by blast
    ultimately show ?thesis by simp
  qed
  have vpre: "v \<notin> set pre"
  proof (cases "map_of m k")
    case None
    then have e: "wref v = next_ref s" by (simp add: v_def)
    show ?thesis
    proof
      assume "v \<in> set pre"
      then have "wref v < next_ref s" using Cons.prems(4) by simp
      with e show False by simp
    qed
  next
    case (Some x)
    then have "v = x" by (simp add: v_def)
    moreover have "x \<in> set R" using Some Cons.prems(5) by blast
    ultimately show ?thesis using Cons.prems(3) by auto
  qed
  have w2: "widgets s2 = (pre @ [v]) @ remove1 v R"
    using positionAt_widgets [OF w1 Cons.prems(3) vpre] Cons.prems(2) by (simp add: s2_def)
  have l2: "length (pre @ [v]) = Suc i" using Cons.prems(2) by simp
  have d2: "distinct ((pre @ [v]) @ remove1 v R)"
    using Cons.prems(3) vpre by (auto simp: distinct_remove1)
  have n2: "next_ref s \<le> next_ref s2"
    by (simp add: s2_def s1_def positionAt_next_ref split: option.splits)
  have vref: "wref v < next_ref s2"
  proof (cases "map_of m k")
    case None
    then show ?thesis by (simp add: v_def s2_def s1_def positionAt_next_ref)
  next
    case (Some x)
    then have "v = x" by (simp add: v_def)
    moreover have "x \<in> set R" using Some Cons.prems(5) by blast
    ultimately have "wref v < next_ref s" using Cons.prems(4) by simp
    then show ?thesis using n2 by simp
  qed
  have f2: "\<forall>w\<in>set ((pre @ [v]) @ remove1 v R). wref w < next_ref s2"
  proof
    fix w assume "w \<in> set ((pre @ [v]) @ remove1 v R)"
    then have "w = v \<or> w \<in> set (pre @ R)" using set_remove1_subset [of v R] by auto
    then show "wref w < next_ref s2" using vref Cons.prems(4) n2 by fastforce
  qed
  have dR: "distinct R" using Cons.prems(3) by simp
  have m2: "\<forall>k' v'. map_of m1 k' = Some v' \<longleftrightarrow> (v' \<in> set (remove1 v R) \<and> (\<exists>r. v' = ItemView r k'))"
  proof (cases "map_of m k")
    case None
    have "v \<notin> set R"
    proof
      assume "v \<in> set R"
      with vk have "map_of m k = Some v" using Cons.prems(5) by blast
      with None show False by simp
    qed
    then have "remove1 v R = R" by (simp add: remove1_idem)
    moreover have "m1 = m" using None by (simp add: m1_def)
    ultimately show ?thesis using Cons.prems(5) by simp
  next
    case (Some x)
    then have xv: "x = v" by (simp add: v_def)
    have m1: "m1 = AList.delete k m" using Some by (simp add: m1_def)
    show ?thesis
    proof (intro allI)
      fix k' v'
      show "map_of m1 k' = Some v' \<longleftrightarrow> (v' \<in> set (remove1 v R) \<and> (\<exists>r. v' = ItemView r k'))"
      proof (cases "k' = k")
        case True
        have "\<not> (v' \<in> set (remove1 v R) \<and> (\<exists>r. v' = ItemView r k))"
        proof
          assume a: "v' \<in> set (remove1 v R) \<and> (\<exists>r. v' = ItemView r k)"
          then have "v' \<in> set R" using set_remove1_subset [of v R] by auto
          with a have "map_of m k = Some v'" using Cons.prems(5) by blast
          with Some xv have "v' = v" by simp
          with a dR show False by simp
        qed
        with True m1 show ?thesis by (simp add: delete_conv')
      next
        case False
        have "v' \<in> set (remove1 v R) \<and> (\<exists>r. v' = ItemView r k')
               \<longleftrightarrow> v' \<in> set R \<and> (\<exists>r. v' = ItemView r k')"
          using vk False dR by auto
        moreover have "map_of m1 k' = map_of m k'" using False m1 by (simp add: delete_conv')
        ultimately show ?thesis using Cons.prems(5) by simp
      qed
    qed
  qed
  from Cons.IH [OF w2 l2 d2 f2 m2] obtain V' where
    V1: "widgets (snd (synchronizeOwn (Suc i) rest (m1, s2)))
           = (pre @ [v]) @ V' @ filter (\<lambda>w. w \<notin> set V') (remove1 v R)"
    and V2: "itemIds_of V' = rest" and V3: "list_all isItemView V'"
    and V4: "distinct ((pre @ [v]) @ V' @ filter (\<lambda>w. w \<notin> set V') (remove1 v R))"
    and V5: "\<forall>w\<in>set ((pre @ [v]) @ V' @ remove1 v R).
               wref w < next_ref (snd (synchronizeOwn (Suc i) rest (m1, s2)))"
    and V6: "\<forall>k'\<in>set rest. \<forall>v'. map_of m1 k' = Some v' \<longrightarrow> v' \<in> set V'"
    by blast
  have fl: "filter (\<lambda>w. w \<notin> set V') (remove1 v R) = filter (\<lambda>w. w \<notin> set (v # V')) R"
    using dR by (simp add: remove1_as_filter)
  have A: "widgets (snd (synchronizeOwn i (k # rest) (m, s)))
             = pre @ (v # V') @ filter (\<lambda>w. w \<notin> set (v # V')) R"
    unfolding step using V1 fl by simp
  have B: "itemIds_of (v # V') = k # rest" using vk V2 by auto
  have C: "list_all isItemView (v # V')" using vk V3 by auto
  have D: "distinct (pre @ (v # V') @ filter (\<lambda>w. w \<notin> set (v # V')) R)"
    using V4 fl by simp
  have E: "\<forall>w\<in>set (pre @ (v # V') @ R).
             wref w < next_ref (snd (synchronizeOwn i (k # rest) (m, s)))"
  proof
    fix w assume a: "w \<in> set (pre @ (v # V') @ R)"
    have "w \<in> set R \<Longrightarrow> w = v \<or> w \<in> set (remove1 v R)" by (metis in_set_remove1)
    with a have "w \<in> set ((pre @ [v]) @ V' @ remove1 v R)" by auto
    then show "wref w < next_ref (snd (synchronizeOwn i (k # rest) (m, s)))"
      unfolding step using V5 by blast
  qed
  have F: "\<forall>k'\<in>set (k # rest). \<forall>v'. map_of m k' = Some v' \<longrightarrow> v' \<in> set (v # V')"
  proof (intro ballI allI impI)
    fix k' v' assume a: "k' \<in> set (k # rest)" and b: "map_of m k' = Some v'"
    show "v' \<in> set (v # V')"
    proof (cases "k' = k")
      case True
      with b show ?thesis by (simp add: v_def)
    next
      case False
      with a have r: "k' \<in> set rest" by simp
      have "map_of m1 k' = Some v'"
        using False b by (simp add: m1_def delete_conv' split: option.splits)
      with r V6 show ?thesis by simp
    qed
  qed
  from A B C D E F show ?case by blast
qed

lemma in_itemIds_of: "ItemView r k \<in> set ws \<Longrightarrow> k \<in> set (itemIds_of ws)"
  by (induction ws rule: itemIds_of.induct) auto

lemma itemIds_of_in: "k \<in> set (itemIds_of ws) \<Longrightarrow> \<exists>r. ItemView r k \<in> set ws"
  by (induction ws rule: itemIds_of.induct) auto

lemma itemIds_of_append: "itemIds_of (xs @ ys) = itemIds_of xs @ itemIds_of ys"
  by (induction xs rule: itemIds_of.induct) auto

lemma itemIds_of_others: "itemIds_of (filter (\<lambda>w. \<not> isItemView w) ws) = []"
  by (induction ws rule: itemIds_of.induct) auto

lemma length_itemIds_of: "list_all isItemView V \<Longrightarrow> length (itemIds_of V) = length V"
  by (induction V rule: itemIds_of.induct) auto

lemma isItemView_iff: "isItemView w \<longleftrightarrow> (\<exists>r k. w = ItemView r k)"
  by (cases w) auto

lemma collect_other:
  "k \<notin> set (itemIds_of ws) \<Longrightarrow> map_of (collectItemViews ws acc) k = map_of acc k"
  by (induction ws acc rule: collectItemViews.induct) (auto simp: update_conv')

lemma collect_sound:
  "map_of (collectItemViews ws acc) k = Some v
     \<Longrightarrow> map_of acc k = Some v \<or> (v \<in> set ws \<and> (\<exists>r. v = ItemView r k))"
  by (induction ws acc rule: collectItemViews.induct)
     (auto simp: update_conv' split: if_splits)

lemma collect_complete:
  "distinct (itemIds_of ws) \<Longrightarrow> ItemView r k \<in> set ws
     \<Longrightarrow> map_of (collectItemViews ws acc) k = Some (ItemView r k)"
proof (induction ws acc rule: collectItemViews.induct)
  case (1 itemIdMap)
  then show ?case by simp
next
  case (2 r0 k0 ws itemIdMap)
  show ?case
  proof (cases "ItemView r k \<in> set ws")
    case True
    with 2 show ?thesis by simp
  next
    case False
    with 2 have e: "r = r0" "k = k0" by auto
    from 2 have "k0 \<notin> set (itemIds_of ws)" by simp
    then show ?thesis using e by (simp add: collect_other update_conv')
  qed
next
  case (3 r0 ws itemIdMap)
  then show ?case by simp
qed

lemma collect_distinct:
  "distinct (map fst acc) \<Longrightarrow> distinct (map fst (collectItemViews ws acc))"
  by (induction ws acc rule: collectItemViews.induct) (auto simp: distinct_update)

lemma collect_keys:
  "fst ` set (collectItemViews ws acc) \<subseteq> set (itemIds_of ws) \<union> fst ` set acc"
  by (induction ws acc rule: collectItemViews.induct) (auto simp: dom_update)

lemma collect_lookup:
  assumes "distinct (itemIds_of ws)"
  shows "map_of (collectItemViews ws []) k = Some v \<longleftrightarrow> (v \<in> set ws \<and> (\<exists>r. v = ItemView r k))"
  using collect_sound [of ws "[]" k v] collect_complete [OF assms, of _ k "[]"] by auto

lemma remove1_filter_keep: "\<not> P v \<Longrightarrow> filter P (remove1 v ws) = filter P ws"
  by (induction ws) auto

lemma disposeStale_widgets:
  "distinct (widgets s) \<Longrightarrow>
     widgets (disposeStale m s) = filter (\<lambda>w. w \<notin> snd ` set m) (widgets s)"
proof (induction m arbitrary: s)
  case Nil
  show ?case by simp
next
  case (Cons p m)
  obtain k v where p: "p = (k, v)" by (cases p)
  let ?s1 = "s\<lparr>widgets := removeWidget v (widgets s), oplog := oplog s @ [Dispose v]\<rparr>"
  have r: "widgets ?s1 = filter (\<lambda>w. w \<noteq> v) (widgets s)"
    using Cons.prems by (simp add: removeWidget_remove1 remove1_as_filter)
  then have "distinct (widgets ?s1)" using Cons.prems by simp
  from Cons.IH [OF this] r show ?case
    by (simp add: p)
qed

lemma disposeStale_oplog:
  "oplog (disposeStale m s) = oplog s @ map (\<lambda>p. Dispose (snd p)) m"
  by (induction m arbitrary: s) auto

lemma disposeStale_others:
  "filter (\<lambda>w. \<not> isItemView w) (widgets (disposeStale m s))
     = filter (\<lambda>w. \<not> isItemView w) (widgets s)"
  if "\<forall>p\<in>set m. isItemView (snd p)"
  using that
  by (induction m arbitrary: s) (auto simp: removeWidget_remove1 remove1_filter_keep)

lemma indexOf_Some: "indexOf w ws = Some i \<Longrightarrow> i < length ws \<and> ws ! i = w"
  by (induction ws arbitrary: i) (auto split: if_splits)

lemma removeAt_filter_keep:
  assumes "i < length ws" and "\<not> P (ws ! i)"
  shows "filter P (ArrayExt_removeAt i ws) = filter P ws"
proof -
  have "filter P ws = filter P (take i ws @ ws ! i # drop (Suc i) ws)"
    using assms(1) by (simp add: id_take_nth_drop [symmetric])
  then show ?thesis using assms(2) by (simp add: ArrayExt_removeAt_def)
qed

lemma insert_filter_keep: "\<not> P w \<Longrightarrow> filter P (ArrayExt_insert j w ws) = filter P ws"
proof -
  assume "\<not> P w"
  then have "filter P (ArrayExt_insert j w ws) = filter P (take j ws) @ filter P (drop j ws)"
    by (simp add: ArrayExt_insert_def)
  also have "\<dots> = filter P (take j ws @ drop j ws)" by (simp only: filter_append)
  finally show ?thesis by simp
qed

lemma insertWidget_others:
  assumes "isItemView v"
  shows "filter (\<lambda>w. \<not> isItemView w) (insertWidget i v ws) = filter (\<lambda>w. \<not> isItemView w) ws"
proof (cases "indexOf v ws")
  case None
  then show ?thesis using assms by (simp add: insertWidget_def insert_filter_keep)
next
  case (Some j)
  then have "j < length ws" and "ws ! j = v" using indexOf_Some [of v ws j] by simp_all
  then have "filter (\<lambda>w. \<not> isItemView w) (ArrayExt_removeAt j ws) = filter (\<lambda>w. \<not> isItemView w) ws"
    using assms by (intro removeAt_filter_keep) simp_all
  then show ?thesis using Some assms by (simp add: insertWidget_def Let_def insert_filter_keep)
qed

lemma positionAt_others:
  "isItemView v \<Longrightarrow>
     filter (\<lambda>w. \<not> isItemView w) (widgets (positionAt i v s)) = filter (\<lambda>w. \<not> isItemView w) (widgets s)"
  by (simp add: positionAt_def insertWidget_others)

lemma positionAt_oplog:
  "\<exists>ops. oplog (positionAt i v s) = oplog s @ ops \<and> set ops \<subseteq> {InsertWidget i v}"
  by (simp add: positionAt_def)

lemma synchronize_others:
  assumes "\<forall>k w. map_of m k = Some w \<longrightarrow> isItemView w"
  shows "filter (\<lambda>w. \<not> isItemView w) (widgets (snd (synchronizeOwn i ids (m, s))))
           = filter (\<lambda>w. \<not> isItemView w) (widgets s)"
  using assms
proof (induction ids arbitrary: i m s)
  case Nil
  show ?case by simp
next
  case (Cons k rest)
  show ?case
  proof (cases "map_of m k")
    case None
    let ?v = "ItemView (next_ref s) k"
    let ?s1 = "s\<lparr>next_ref := Suc (next_ref s), oplog := oplog s @ [Create ?v]\<rparr>"
    have "filter (\<lambda>w. \<not> isItemView w) (widgets (snd (synchronizeOwn (Suc i) rest (m, positionAt i ?v ?s1))))
            = filter (\<lambda>w. \<not> isItemView w) (widgets (positionAt i ?v ?s1))"
      using Cons.IH [OF Cons.prems] .
    then show ?thesis using None by (simp add: Let_def positionAt_others)
  next
    case (Some v)
    then have iv: "isItemView v" using Cons.prems by blast
    have "\<forall>k' w. map_of (AList.delete k m) k' = Some w \<longrightarrow> isItemView w"
      using Cons.prems by (auto simp: delete_conv' split: if_splits)
    from Cons.IH [OF this]
    have "filter (\<lambda>w. \<not> isItemView w)
              (widgets (snd (synchronizeOwn (Suc i) rest (AList.delete k m, positionAt i v s))))
            = filter (\<lambda>w. \<not> isItemView w) (widgets (positionAt i v s))" .
    then show ?thesis using Some iv by (simp add: positionAt_others)
  qed
qed

lemma synchronize_oplog:
  assumes "\<forall>k w. map_of m k = Some w \<longrightarrow> isItemView w"
  shows "\<exists>ops. oplog (snd (synchronizeOwn i ids (m, s))) = oplog s @ ops
           \<and> (\<forall>op\<in>set ops. isItemView (op_widget op) \<and> (\<forall>w. op \<noteq> Dispose w))
           \<and> (distinct ids \<longrightarrow>
                (\<forall>w. Create w \<in> set ops \<longrightarrow>
                   (\<exists>r k. w = ItemView r k \<and> k \<in> set ids \<and> map_of m k = None)))"
  using assms
proof (induction ids arbitrary: i m s)
  case Nil
  then show ?case by simp
next
  case (Cons k rest)
  show ?case
  proof (cases "map_of m k")
    case None
    let ?v = "ItemView (next_ref s) k"
    let ?s1 = "s\<lparr>next_ref := Suc (next_ref s), oplog := oplog s @ [Create ?v]\<rparr>"
    obtain ops1 where o1: "oplog (positionAt i ?v ?s1) = oplog ?s1 @ ops1"
      and o1s: "set ops1 \<subseteq> {InsertWidget i ?v}"
      using positionAt_oplog by blast
    from Cons.IH [OF Cons.prems, of "Suc i" "positionAt i ?v ?s1"] obtain ops2 where
      o2: "oplog (snd (synchronizeOwn (Suc i) rest (m, positionAt i ?v ?s1)))
             = oplog (positionAt i ?v ?s1) @ ops2"
      and o2a: "\<forall>op\<in>set ops2. isItemView (op_widget op) \<and> (\<forall>w. op \<noteq> Dispose w)"
      and o2c: "distinct rest \<longrightarrow> (\<forall>w. Create w \<in> set ops2 \<longrightarrow>
                   (\<exists>r k'. w = ItemView r k' \<and> k' \<in> set rest \<and> map_of m k' = None))"
      by blast
    let ?ops = "Create ?v # ops1 @ ops2"
    have e: "oplog (snd (synchronizeOwn i (k # rest) (m, s))) = oplog s @ ?ops"
      using None o1 o2 by (simp add: Let_def)
    have a: "\<forall>op\<in>set ?ops. isItemView (op_widget op) \<and> (\<forall>w. op \<noteq> Dispose w)"
      using o1s o2a by auto
    have c: "distinct (k # rest) \<longrightarrow> (\<forall>w. Create w \<in> set ?ops \<longrightarrow>
                (\<exists>r k'. w = ItemView r k' \<and> k' \<in> set (k # rest) \<and> map_of m k' = None))"
      using o1s o2c None by auto
    from e a c show ?thesis by blast
  next
    case (Some v)
    then have iv: "isItemView v" using Cons.prems by blast
    have d: "\<forall>k' w. map_of (AList.delete k m) k' = Some w \<longrightarrow> isItemView w"
      using Cons.prems by (auto simp: delete_conv' split: if_splits)
    obtain ops1 where o1: "oplog (positionAt i v s) = oplog s @ ops1"
      and o1s: "set ops1 \<subseteq> {InsertWidget i v}"
      using positionAt_oplog by blast
    from Cons.IH [OF d, of "Suc i" "positionAt i v s"] obtain ops2 where
      o2: "oplog (snd (synchronizeOwn (Suc i) rest (AList.delete k m, positionAt i v s)))
             = oplog (positionAt i v s) @ ops2"
      and o2a: "\<forall>op\<in>set ops2. isItemView (op_widget op) \<and> (\<forall>w. op \<noteq> Dispose w)"
      and o2c: "distinct rest \<longrightarrow> (\<forall>w. Create w \<in> set ops2 \<longrightarrow>
                   (\<exists>r k'. w = ItemView r k' \<and> k' \<in> set rest
                      \<and> map_of (AList.delete k m) k' = None))"
      by blast
    let ?ops = "ops1 @ ops2"
    have e: "oplog (snd (synchronizeOwn i (k # rest) (m, s))) = oplog s @ ?ops"
      using Some o1 o2 by simp
    have a: "\<forall>op\<in>set ?ops. isItemView (op_widget op) \<and> (\<forall>w. op \<noteq> Dispose w)"
      using o1s o2a iv by auto
    have c: "distinct (k # rest) \<longrightarrow> (\<forall>w. Create w \<in> set ?ops \<longrightarrow>
                (\<exists>r k'. w = ItemView r k' \<and> k' \<in> set (k # rest) \<and> map_of m k' = None))"
    proof (intro impI allI)
      fix w assume dk: "distinct (k # rest)" and cw: "Create w \<in> set ?ops"
      from cw o1s have "Create w \<in> set ops2" by auto
      with dk o2c obtain r k' where w: "w = ItemView r k'" and kr: "k' \<in> set rest"
        and n: "map_of (AList.delete k m) k' = None" by auto
      from dk kr have "k' \<noteq> k" by auto
      with n have "map_of m k' = None" by (simp add: delete_conv')
      with w kr show "\<exists>r k'. w = ItemView r k' \<and> k' \<in> set (k # rest) \<and> map_of m k' = None"
        by auto
    qed
    from e a c show ?thesis by blast
  qed
qed

lemma synchronize_fixed:
  assumes "widgets s = pre @ V @ P" and "length pre = i" and "list_all isItemView V"
    and "itemIds_of V = ids" and "distinct ids"
    and "\<forall>r k. ItemView r k \<in> set V \<longrightarrow> map_of m k = Some (ItemView r k)"
  shows "snd (synchronizeOwn i ids (m, s)) = s"
  using assms
proof (induction V arbitrary: pre i ids m)
  case Nil
  then show ?case by simp
next
  case (Cons v V')
  from Cons.prems(3) obtain r k where v: "v = ItemView r k" by (auto simp: isItemView_iff)
  with Cons.prems(4) have ids: "ids = k # itemIds_of V'" by simp
  have mk: "map_of m k = Some v" using Cons.prems(6) v by simp
  have "widgetAt (widgets s) i = Some v"
    using Cons.prems(1,2) widgetAt_append [of pre "(v # V') @ P"] by simp
  then have p: "positionAt i v s = s" by (simp add: positionAt_def)
  have w: "widgets s = (pre @ [v]) @ V' @ P" using Cons.prems(1) by simp
  have l: "length (pre @ [v]) = Suc i" using Cons.prems(2) by simp
  have a: "list_all isItemView V'" using Cons.prems(3) by simp
  have d: "distinct (itemIds_of V')" using Cons.prems(5) ids by simp
  have kn: "k \<notin> set (itemIds_of V')" using Cons.prems(5) ids by simp
  have m': "\<forall>r' k'. ItemView r' k' \<in> set V' \<longrightarrow> map_of (AList.delete k m) k' = Some (ItemView r' k')"
  proof (intro allI impI)
    fix r' k' assume i: "ItemView r' k' \<in> set V'"
    then have "k' \<in> set (itemIds_of V')" by (rule in_itemIds_of)
    with kn have "k' \<noteq> k" by auto
    then show "map_of (AList.delete k m) k' = Some (ItemView r' k')"
      using Cons.prems(6) i by (simp add: delete_conv')
  qed
  have "snd (synchronizeOwn (Suc i) (itemIds_of V') (AList.delete k m, s)) = s"
    using Cons.IH [OF w l a refl d m'] .
  then show ?case using ids mk p by simp
qed

lemma positionAt_frame:
  "area (positionAt i w s) = area s" "area_classes (positionAt i w s) = area_classes s"
  "areaId (positionAt i w s) = areaId s" "area_view_ref (positionAt i w s) = area_view_ref s"
  by (simp_all add: positionAt_def)

lemma synchronize_frame:
  "area (snd (synchronizeOwn i ids (m, s))) = area s
   \<and> area_classes (snd (synchronizeOwn i ids (m, s))) = area_classes s
   \<and> areaId (snd (synchronizeOwn i ids (m, s))) = areaId s
   \<and> area_view_ref (snd (synchronizeOwn i ids (m, s))) = area_view_ref s"
  by (induction ids arbitrary: i m s)
     (auto simp: Let_def positionAt_frame split: option.splits)

lemma disposeStale_frame:
  "area (disposeStale m s) = area s \<and> area_classes (disposeStale m s) = area_classes s
   \<and> areaId (disposeStale m s) = areaId s \<and> area_view_ref (disposeStale m s) = area_view_ref s
   \<and> next_ref (disposeStale m s) = next_ref s"
  by (induction m arbitrary: s) auto

lemma refreshOwn_unfold:
  "refreshOwn v =
     disposeStale
       (fst (synchronizeOwn 0 (outputItemIds (contents (area v)))
          (collectItemViews (widgets v) [],
           v\<lparr>area_classes := toggleClass ''jp-mod-trusted'' (area_trusted (contents (area v)))
                                 (area_classes v)\<rparr>)))
       (snd (synchronizeOwn 0 (outputItemIds (contents (area v)))
          (collectItemViews (widgets v) [],
           v\<lparr>area_classes := toggleClass ''jp-mod-trusted'' (area_trusted (contents (area v)))
                                 (area_classes v)\<rparr>)))"
  by (simp add: refreshOwn_def Let_def split: prod.splits)

lemma refreshOwn_frame:
  "area (refreshOwn v) = area v
   \<and> areaId (refreshOwn v) = areaId v
   \<and> area_view_ref (refreshOwn v) = area_view_ref v
   \<and> area_classes (refreshOwn v)
       = toggleClass ''jp-mod-trusted'' (area_trusted (contents (area v))) (area_classes v)"
  by (simp add: refreshOwn_unfold disposeStale_frame synchronize_frame)

lemma collect_values:
  "list_all (\<lambda>p. isItemView (snd p)) (collectItemViews ws [])"
proof -
  have "\<forall>p\<in>set (collectItemViews ws []). isItemView (snd p)"
  proof
    fix p assume "p \<in> set (collectItemViews ws [])"
    then have "map_of (collectItemViews ws []) (fst p) = Some (snd p)"
      using collect_distinct [of "[]" ws] by simp
    then show "isItemView (snd p)" using collect_sound [of ws "[]" "fst p" "snd p"] by auto
  qed
  then show ?thesis by (simp add: list_all_iff)
qed

lemma collect_lookup_itemView:
  "map_of (collectItemViews ws []) k = Some w \<Longrightarrow> isItemView w"
  using collect_sound [of ws "[]" k w] by auto

lemma refresh_area_children:
  assumes ok: "areaChildrenOk v"
  shows "\<exists>V. widgets (refreshOwn v) = V @ filter (\<lambda>w. \<not> isItemView w) (widgets v)
           \<and> list_all isItemView V
           \<and> itemIds_of V = outputItemIds (contents (area v))
           \<and> (\<forall>r k. ItemView r k \<in> set (widgets v) \<longrightarrow> k \<in> set (outputItemIds (contents (area v)))
                  \<longrightarrow> ItemView r k \<in> set V)
           \<and> distinct (widgets (refreshOwn v))
           \<and> list_all (\<lambda>w. wref w < next_ref (refreshOwn v))
                (widgets (refreshOwn v))"
proof -
  define ids where "ids = outputItemIds (contents (area v))"
  define ws where "ws = widgets v"
  define v1 where "v1 = v\<lparr>area_classes :=
     toggleClass ''jp-mod-trusted'' (area_trusted (contents (area v))) (area_classes v)\<rparr>"
  define m0 where "m0 = collectItemViews ws []"
  define v2 where "v2 = snd (synchronizeOwn 0 ids (m0, v1))"
  define m' where "m' = fst (synchronizeOwn 0 ids (m0, v1))"
  have v': "refreshOwn v = disposeStale m' v2"
    by (simp add: refreshOwn_unfold m'_def v2_def m0_def v1_def ids_def ws_def)
  from ok have dws: "distinct ws" and bws: "\<forall>w\<in>set ws. wref w < next_ref v"
    and dk: "distinct (itemIds_of ws)"
    by (simp_all add: areaChildrenOk_def ws_def list_all_iff)
  have M: "\<forall>k w. map_of m0 k = Some w \<longleftrightarrow> (w \<in> set ws \<and> (\<exists>r. w = ItemView r k))"
    using collect_lookup [OF dk] by (simp add: m0_def)
  have w1: "widgets v1 = [] @ ws" by (simp add: v1_def ws_def)
  have d1: "distinct ([] @ ws)" using dws by simp
  have b1: "\<forall>w\<in>set ([] @ ws). wref w < next_ref v1" using bws by (simp add: v1_def)
  have l1: "length ([] :: Widget list) = 0" by simp
  from synchronize_structure [OF w1 l1 d1 b1 M, of ids] obtain V where
    V1: "widgets v2 = V @ filter (\<lambda>w. w \<notin> set V) ws"
    and V2: "itemIds_of V = ids" and V3: "list_all isItemView V"
    and V4: "distinct (V @ filter (\<lambda>w. w \<notin> set V) ws)"
    and V5: "\<forall>w\<in>set (V @ ws). wref w < next_ref v2"
    and V6: "\<forall>k\<in>set ids. \<forall>w. map_of m0 k = Some w \<longrightarrow> w \<in> set V"
    unfolding v2_def by auto
  have m'eq: "m' = filter (\<lambda>p. fst p \<notin> set ids) m0"
    by (simp add: m'_def synchronize_map)
  have dm0: "distinct (map fst m0)" using collect_distinct [of "[]" ws] by (simp add: m0_def)
  have L: "\<And>w. w \<in> snd ` set m' \<longleftrightarrow> (\<exists>r k. w = ItemView r k \<and> w \<in> set ws \<and> k \<notin> set ids)"
  proof
    fix w assume "w \<in> snd ` set m'"
    then obtain k where "(k, w) \<in> set m0" and kn: "k \<notin> set ids" using m'eq by auto
    then have "map_of m0 k = Some w" using dm0 by simp
    with M have "w \<in> set ws \<and> (\<exists>r. w = ItemView r k)" by blast
    with kn show "\<exists>r k. w = ItemView r k \<and> w \<in> set ws \<and> k \<notin> set ids" by blast
  next
    fix w assume "\<exists>r k. w = ItemView r k \<and> w \<in> set ws \<and> k \<notin> set ids"
    then obtain r k where w: "w = ItemView r k" "w \<in> set ws" "k \<notin> set ids" by blast
    with M have "map_of m0 k = Some w" by blast
    then have "(k, w) \<in> set m0" by (rule map_of_SomeD)
    with w(3) have "(k, w) \<in> set m'" using m'eq by simp
    then show "w \<in> snd ` set m'" by force
  qed
  have Vids: "\<And>w. w \<in> set V \<Longrightarrow> \<exists>r k. w = ItemView r k \<and> k \<in> set ids"
  proof -
    fix w assume a: "w \<in> set V"
    with V3 obtain r k where w: "w = ItemView r k" by (auto simp: list_all_iff isItemView_iff)
    with a have "k \<in> set (itemIds_of V)" using in_itemIds_of by simp
    with w V2 show "\<exists>r k. w = ItemView r k \<and> k \<in> set ids" by auto
  qed
  have f1: "filter (\<lambda>w. w \<notin> snd ` set m') V = V"
  proof -
    have "\<forall>w\<in>set V. w \<notin> snd ` set m'"
    proof
      fix w assume "w \<in> set V"
      from Vids [OF this] obtain r k where "w = ItemView r k" and "k \<in> set ids" by blast
      then show "w \<notin> snd ` set m'" using L [of w] by auto
    qed
    then show ?thesis by (simp add: filter_id_conv)
  qed
  have f2: "filter (\<lambda>w. w \<notin> snd ` set m') (filter (\<lambda>w. w \<notin> set V) ws)
              = filter (\<lambda>w. \<not> isItemView w) ws"
  proof -
    have "\<forall>w\<in>set ws. (w \<notin> set V \<and> w \<notin> snd ` set m') \<longleftrightarrow> \<not> isItemView w"
    proof
      fix w assume a: "w \<in> set ws"
      show "(w \<notin> set V \<and> w \<notin> snd ` set m') \<longleftrightarrow> \<not> isItemView w"
      proof (cases w)
        case (ItemView r k)
        have "w \<in> set V \<or> w \<in> snd ` set m'"
        proof (cases "k \<in> set ids")
          case True
          from a ItemView M have "map_of m0 k = Some w" by blast
          with True V6 show ?thesis by blast
        next
          case False
          with a ItemView L [of w] show ?thesis by blast
        qed
        with ItemView show ?thesis by auto
      next
        case (OtherWidget r)
        then have "w \<notin> set V" using Vids [of w] by auto
        moreover have "w \<notin> snd ` set m'" using OtherWidget L [of w] by auto
        ultimately show ?thesis using OtherWidget by simp
      qed
    qed
    then have "filter (\<lambda>w. w \<notin> set V \<and> w \<notin> snd ` set m') ws = filter (\<lambda>w. \<not> isItemView w) ws"
      by (intro filter_cong) auto
    then show ?thesis by (simp add: conj_commute)
  qed
  have dv2: "distinct (widgets v2)" using V1 V4 by simp
  have W: "widgets (disposeStale m' v2) = V @ filter (\<lambda>w. \<not> isItemView w) ws"
    using disposeStale_widgets [OF dv2, of m'] V1 f1 f2 by simp
  have K: "\<forall>r k. ItemView r k \<in> set ws \<longrightarrow> k \<in> set ids \<longrightarrow> ItemView r k \<in> set V"
    using M V6 by blast
  have D: "distinct (widgets (disposeStale m' v2))"
    using disposeStale_widgets [OF dv2, of m'] dv2 by simp
  have B: "list_all (\<lambda>w. wref w < next_ref (disposeStale m' v2)) (widgets (disposeStale m' v2))"
    using W V5 by (auto simp: list_all_iff disposeStale_frame)
  from W V3 V2 K D B show ?thesis
    unfolding v' ids_def [symmetric] ws_def [symmetric] by blast
qed

lemma refresh_area_oplog:
  "\<exists>ops. oplog (refreshOwn v)
            = oplog v @ ops
              @ map (\<lambda>p. Dispose (snd p))
                  (filter (\<lambda>p. fst p \<notin> set (outputItemIds (contents (area v))))
                     (collectItemViews (widgets v) []))
         \<and> (\<forall>op\<in>set ops. isItemView (op_widget op) \<and> (\<forall>w. op \<noteq> Dispose w))
         \<and> (distinct (outputItemIds (contents (area v))) \<longrightarrow>
              (\<forall>w. Create w \<in> set ops \<longrightarrow>
                 (\<exists>r k. w = ItemView r k \<and> k \<in> set (outputItemIds (contents (area v)))
                    \<and> map_of (collectItemViews (widgets v) []) k = None)))"
proof -
  let ?v1 = "v\<lparr>area_classes :=
     toggleClass ''jp-mod-trusted'' (area_trusted (contents (area v))) (area_classes v)\<rparr>"
  have "\<forall>k w. map_of (collectItemViews (widgets v) []) k = Some w \<longrightarrow> isItemView w"
    using collect_lookup_itemView by blast
  from synchronize_oplog [OF this, of 0 "outputItemIds (contents (area v))" ?v1]
  show ?thesis
    by (simp add: refreshOwn_unfold disposeStale_oplog synchronize_map)
qed

subsection \<open>What the run on ordinary ids does\<close>

lemma refreshOwn_reconciles:
  assumes ok: "areaChildrenOk v" and lg: "oplog v = []"
  shows "list_all isItemView
           (take (length (outputItemIds (contents (area v)))) (widgets (refreshOwn v)))
       \<and> itemIds_of
           (take (length (outputItemIds (contents (area v)))) (widgets (refreshOwn v)))
           = outputItemIds (contents (area v))
       \<and> drop (length (outputItemIds (contents (area v)))) (widgets (refreshOwn v))
           = filter (\<lambda>w. \<not> isItemView w) (widgets v)
       \<and> (\<forall>r k. ItemView r k \<in> set (widgets v) \<longrightarrow>
             (Dispose (ItemView r k) \<in> set (oplog (refreshOwn v))
                \<longleftrightarrow> k \<notin> set (outputItemIds (contents (area v)))))
       \<and> (\<forall>r k. ItemView r k \<in> set (widgets v) \<longrightarrow> k \<in> set (outputItemIds (contents (area v)))
             \<longrightarrow> ItemView r k \<in> set (widgets (refreshOwn v)))
       \<and> (\<forall>w. Dispose w \<in> set (oplog (refreshOwn v)) \<longrightarrow>
             w \<in> set (widgets v) \<and> w \<notin> set (widgets (refreshOwn v)))
       \<and> (distinct (outputItemIds (contents (area v))) \<longrightarrow>
             (\<forall>r k. Create (ItemView r k) \<in> set (oplog (refreshOwn v)) \<longrightarrow>
                k \<in> set (outputItemIds (contents (area v))) \<and> k \<notin> set (itemIds_of (widgets v))))"
proof -
  define ids where "ids = outputItemIds (contents (area v))"
  define ws where "ws = widgets v"
  define v' where "v' = refreshOwn v"
  define m0 where "m0 = collectItemViews ws []"
  from ok have dk: "distinct (itemIds_of ws)" by (simp add: areaChildrenOk_def ws_def)
  have dm0: "distinct (map fst m0)" using collect_distinct [of "[]" ws] by (simp add: m0_def)
  have M: "\<And>k w. map_of m0 k = Some w \<longleftrightarrow> (w \<in> set ws \<and> (\<exists>r. w = ItemView r k))"
    using collect_lookup [OF dk] by (simp add: m0_def)
  from refresh_area_children [OF ok] obtain V where
    W: "widgets v' = V @ filter (\<lambda>w. \<not> isItemView w) ws"
    and V3: "list_all isItemView V" and V2: "itemIds_of V = ids"
    and K: "\<forall>r k. ItemView r k \<in> set ws \<longrightarrow> k \<in> set ids \<longrightarrow> ItemView r k \<in> set V"
    unfolding v'_def ids_def ws_def by blast
  from refresh_area_oplog [of v] lg obtain ops where
    O: "oplog v' = ops @ map (\<lambda>p. Dispose (snd p)) (filter (\<lambda>p. fst p \<notin> set ids) m0)"
    and O1: "\<forall>op\<in>set ops. isItemView (op_widget op) \<and> (\<forall>w. op \<noteq> Dispose w)"
    and O2: "distinct ids \<longrightarrow> (\<forall>w. Create w \<in> set ops \<longrightarrow>
               (\<exists>r k. w = ItemView r k \<and> k \<in> set ids \<and> map_of m0 k = None))"
    unfolding v'_def ids_def ws_def m0_def by auto
  have lV: "length V = length ids" using length_itemIds_of [OF V3] V2 by simp
  have tk: "take (length ids) (widgets v') = V" using W lV by simp
  have dr: "drop (length ids) (widgets v') = filter (\<lambda>w. \<not> isItemView w) ws" using W lV by simp
  have Dsp: "\<And>w. Dispose w \<in> set (oplog v')
               \<longleftrightarrow> (\<exists>r k. w = ItemView r k \<and> w \<in> set ws \<and> k \<notin> set ids)"
  proof
    fix w assume "Dispose w \<in> set (oplog v')"
    with O O1 have "w \<in> snd ` set (filter (\<lambda>p. fst p \<notin> set ids) m0)" by auto
    then obtain k where "(k, w) \<in> set m0" and kn: "k \<notin> set ids" by auto
    then have "map_of m0 k = Some w" using dm0 by simp
    with M have "w \<in> set ws \<and> (\<exists>r. w = ItemView r k)" by blast
    with kn show "\<exists>r k. w = ItemView r k \<and> w \<in> set ws \<and> k \<notin> set ids" by blast
  next
    fix w assume "\<exists>r k. w = ItemView r k \<and> w \<in> set ws \<and> k \<notin> set ids"
    then obtain r k where w: "w = ItemView r k" "w \<in> set ws" "k \<notin> set ids" by blast
    with M have "map_of m0 k = Some w" by blast
    then have "(k, w) \<in> set m0" by (rule map_of_SomeD)
    with w(3) have "(k, w) \<in> set (filter (\<lambda>p. fst p \<notin> set ids) m0)" by simp
    then have "Dispose w \<in> (\<lambda>p. Dispose (snd p)) ` set (filter (\<lambda>p. fst p \<notin> set ids) m0)"
      by force
    then show "Dispose w \<in> set (oplog v')" using O by simp
  qed
  have Vids: "\<And>w. w \<in> set V \<Longrightarrow> \<exists>r k. w = ItemView r k \<and> k \<in> set ids"
  proof -
    fix w assume a: "w \<in> set V"
    with V3 obtain r k where w: "w = ItemView r k" by (auto simp: list_all_iff isItemView_iff)
    with a have "k \<in> set (itemIds_of V)" using in_itemIds_of by simp
    with w V2 show "\<exists>r k. w = ItemView r k \<and> k \<in> set ids" by auto
  qed
  have c4: "\<forall>r k. ItemView r k \<in> set ws \<longrightarrow>
              (Dispose (ItemView r k) \<in> set (oplog v') \<longleftrightarrow> k \<notin> set ids)"
    using Dsp by auto
  have c5: "\<forall>r k. ItemView r k \<in> set ws \<longrightarrow> k \<in> set ids \<longrightarrow> ItemView r k \<in> set (widgets v')"
    using K W by auto
  have c6: "\<forall>w. Dispose w \<in> set (oplog v') \<longrightarrow> w \<in> set ws \<and> w \<notin> set (widgets v')"
  proof (intro allI impI)
    fix w assume "Dispose w \<in> set (oplog v')"
    then obtain r k where w: "w = ItemView r k" "w \<in> set ws" "k \<notin> set ids" using Dsp by blast
    then have "w \<notin> set V" using Vids [of w] by auto
    moreover have "w \<notin> set (filter (\<lambda>w. \<not> isItemView w) ws)" using w(1) by simp
    ultimately show "w \<in> set ws \<and> w \<notin> set (widgets v')" using w(2) W by simp
  qed
  have c7: "distinct ids \<longrightarrow> (\<forall>r k. Create (ItemView r k) \<in> set (oplog v') \<longrightarrow>
              k \<in> set ids \<and> k \<notin> set (itemIds_of ws))"
  proof (intro impI allI)
    fix r k assume d: "distinct ids" and c: "Create (ItemView r k) \<in> set (oplog v')"
    from c O have "Create (ItemView r k) \<in> set ops" by auto
    with d O2 have ki: "k \<in> set ids" and n: "map_of m0 k = None" by auto
    have "k \<notin> set (itemIds_of ws)"
    proof
      assume "k \<in> set (itemIds_of ws)"
      then obtain r' where "ItemView r' k \<in> set ws" using itemIds_of_in by blast
      with M have "map_of m0 k = Some (ItemView r' k)" by blast
      with n show False by simp
    qed
    with ki show "k \<in> set ids \<and> k \<notin> set (itemIds_of ws)" by simp
  qed
  from tk V3 V2 dr c4 c5 c6 c7 show ?thesis
    unfolding v'_def ids_def ws_def by simp
qed

lemma toggleClass_idem: "toggleClass c b (toggleClass c b cs) = toggleClass c b cs"
  by (simp add: toggleClass_def)

lemma areaChildrenOk_new: "areaChildrenOk (new_OutputAreaView r k)"
  by (simp add: areaChildrenOk_def new_OutputAreaView_def)

lemma areaChildrenOk_refreshOwn:
  assumes "areaChildrenOk v" and "distinct (outputItemIds (contents (area v)))"
  shows "areaChildrenOk (refreshOwn v)"
proof -
  from refresh_area_children [OF assms(1)] obtain V where
    W: "widgets (refreshOwn v) = V @ filter (\<lambda>w. \<not> isItemView w) (widgets v)"
    and V2: "itemIds_of V = outputItemIds (contents (area v))"
    and D: "distinct (widgets (refreshOwn v))"
    and B: "list_all (\<lambda>w. wref w < next_ref (refreshOwn v))
              (widgets (refreshOwn v))"
    by blast
  have "itemIds_of (widgets (refreshOwn v)) = outputItemIds (contents (area v))"
    using W V2 by (simp add: itemIds_of_append itemIds_of_others)
  with D B assms(2) show ?thesis by (simp add: areaChildrenOk_def)
qed

lemma refreshOwn_idempotent:
  assumes ok: "areaChildrenOk v" and d: "distinct (outputItemIds (contents (area v)))"
  shows "refreshOwn ((refreshOwn v)\<lparr>oplog := []\<rparr>)
           = (refreshOwn v)\<lparr>oplog := []\<rparr>
       \<and> oplog (refreshOwn ((refreshOwn v)\<lparr>oplog := []\<rparr>)) = []"
proof -
  define ids where "ids = outputItemIds (contents (area v))"
  define s where "s = (refreshOwn v)\<lparr>oplog := []\<rparr>"
  define P where "P = filter (\<lambda>w. \<not> isItemView w) (widgets v)"
  define m where "m = collectItemViews (widgets s) []"
  from refresh_area_children [OF ok] obtain V where
    W: "widgets s = [] @ V @ P" and V3: "list_all isItemView V" and V2: "itemIds_of V = ids"
    unfolding s_def ids_def P_def by auto
  have fr: "area s = area v"
    "area_classes s = toggleClass ''jp-mod-trusted'' (area_trusted (contents (area v))) (area_classes v)"
    using refreshOwn_frame [of v] by (simp_all add: s_def)
  have t: "s\<lparr>area_classes :=
              toggleClass ''jp-mod-trusted'' (area_trusted (contents (area s))) (area_classes s)\<rparr> = s"
    using fr by (simp add: toggleClass_idem)
  have tags: "itemIds_of (widgets s) = ids"
    using W V2 by (simp add: itemIds_of_append itemIds_of_others P_def)
  have dt: "distinct (itemIds_of (widgets s))" using tags d by (simp add: ids_def)
  have look: "\<forall>r k. ItemView r k \<in> set V \<longrightarrow> map_of m k = Some (ItemView r k)"
  proof (intro allI impI)
    fix r k assume "ItemView r k \<in> set V"
    then have "ItemView r k \<in> set (widgets s)" using W by simp
    then show "map_of m k = Some (ItemView r k)"
      unfolding m_def by (rule collect_complete [OF dt])
  qed
  have l0: "length ([] :: Widget list) = 0" by simp
  have dids: "distinct ids" using d by (simp add: ids_def)
  have fx: "snd (synchronizeOwn 0 ids (m, s)) = s"
    using synchronize_fixed [OF W l0 V3 V2 dids look] .
  have "fst ` set m \<subseteq> set ids"
    using collect_keys [of "widgets s" "[]"] tags by (simp add: m_def)
  then have "filter (\<lambda>p. fst p \<notin> set ids) m = []"
    by (auto simp: filter_empty_conv)
  then have lf: "fst (synchronizeOwn 0 ids (m, s)) = []" by (simp add: synchronize_map)
  have "refreshOwn s = s"
    using fx lf t fr(1) by (simp add: refreshOwn_unfold m_def ids_def)
  then show ?thesis by (simp add: s_def)
qed

lemma refreshOwn_keeps_others:
  "filter (\<lambda>w. \<not> isItemView w) (widgets (refreshOwn v))
     = filter (\<lambda>w. \<not> isItemView w) (widgets v)
   \<and> list_all (\<lambda>p. isItemView (snd p)) (collectItemViews (widgets v) [])
   \<and> list_all (\<lambda>op. isItemView (op_widget op))
       (drop (length (oplog v)) (oplog (refreshOwn v)))"
proof -
  let ?v1 = "v\<lparr>area_classes :=
     toggleClass ''jp-mod-trusted'' (area_trusted (contents (area v))) (area_classes v)\<rparr>"
  let ?ids = "outputItemIds (contents (area v))"
  let ?m0 = "collectItemViews (widgets v) []"
  have vals: "\<forall>k w. map_of ?m0 k = Some w \<longrightarrow> isItemView w"
    using collect_lookup_itemView by blast
  have cv: "list_all (\<lambda>p. isItemView (snd p)) ?m0" by (rule collect_values)
  then have lv: "\<forall>p\<in>set (fst (synchronizeOwn 0 ?ids (?m0, ?v1))). isItemView (snd p)"
    by (simp add: synchronize_map list_all_iff)
  have a: "filter (\<lambda>w. \<not> isItemView w) (widgets (refreshOwn v))
             = filter (\<lambda>w. \<not> isItemView w) (widgets v)"
    using disposeStale_others [OF lv] synchronize_others [OF vals, of 0 ?ids ?v1]
    by (simp add: refreshOwn_unfold)
  from refresh_area_oplog [of v] obtain ops where
    O: "oplog (refreshOwn v)
          = oplog v @ ops @ map (\<lambda>p. Dispose (snd p)) (filter (\<lambda>p. fst p \<notin> set ?ids) ?m0)"
    and O1: "\<forall>op\<in>set ops. isItemView (op_widget op) \<and> (\<forall>w. op \<noteq> Dispose w)"
    by blast
  have c: "list_all (\<lambda>op. isItemView (op_widget op))
             (drop (length (oplog v)) (oplog (refreshOwn v)))"
    using O O1 cv by (auto simp: list_all_iff)
  from a cv c show ?thesis by simp
qed

subsection \<open>The run of the code\<close>

text \<open>
  A run that reaches its end took the inherited branch nowhere, and it is the run on own
  keys; when no id is an inherited name, the run reaches its end.
\<close>

lemma synchronize_Inr:
  "synchronize i ids (m, s) = Inr r \<Longrightarrow> r = synchronizeOwn i ids (m, s)"
proof (induction ids arbitrary: i m s)
  case Nil
  then show ?case by auto
next
  case (Cons k rest)
  show ?case
  proof (cases "map_of m k")
    case None
    with Cons.prems have n: "k \<notin> set objectPrototypeNames" by (auto split: if_splits)
    let ?v = "ItemView (next_ref s) k"
    let ?s1 = "s\<lparr>next_ref := Suc (next_ref s), oplog := oplog s @ [Create ?v]\<rparr>"
    have "synchronize (Suc i) rest (m, positionAt i ?v ?s1) = Inr r"
      using Cons.prems None n by (simp add: Let_def)
    from Cons.IH [OF this] show ?thesis using None by (simp add: Let_def)
  next
    case (Some v)
    then have "synchronize (Suc i) rest (AList.delete k m, positionAt i v s) = Inr r"
      using Cons.prems by simp
    from Cons.IH [OF this] show ?thesis using Some by simp
  qed
qed

lemma synchronize_ordinary:
  "list_all (\<lambda>k. k \<notin> set objectPrototypeNames) ids
     \<Longrightarrow> synchronize i ids (m, s) = Inr (synchronizeOwn i ids (m, s))"
  by (induction ids arbitrary: i m s) (auto simp: Let_def split: option.splits)

lemma proto_inherited: "''__proto__'' \<in> set objectPrototypeNames"
  by (simp add: objectPrototypeNames_def)

lemma onRefreshRequest_area_Inr:
  assumes "onRefreshRequest_area v = Inr v'"
  shows "v' = refreshOwn v"
proof -
  let ?v1 = "v\<lparr>area_classes :=
     toggleClass ''jp-mod-trusted'' (area_trusted (contents (area v))) (area_classes v)\<rparr>"
  let ?ids = "outputItemIds (contents (area v))"
  let ?m0 = "collectItemViews (widgets v) []"
  from assms obtain r where r: "synchronize 0 ?ids (?m0, ?v1) = Inr r"
    and e: "v' = disposeStale (fst r) (snd r)"
    by (auto simp: onRefreshRequest_area_def Let_def split: if_splits sum.splits)
  from synchronize_Inr [OF r] e show ?thesis
    by (simp add: refreshOwn_unfold)
qed

lemma onRefreshRequest_area_ordinary:
  assumes "ordinaryIds v"
  shows "onRefreshRequest_area v = Inr (refreshOwn v)"
proof -
  from assms have a: "list_all (\<lambda>k. k \<notin> set objectPrototypeNames) (outputItemIds (contents (area v)))"
    and b: "list_all (\<lambda>k. k \<notin> set objectPrototypeNames) (itemIds_of (widgets v))"
    by (simp_all add: ordinaryIds_def)
  from b have p: "''__proto__'' \<notin> set (itemIds_of (widgets v))"
    using proto_inherited by (auto simp: list_all_iff)
  show ?thesis
    using p synchronize_ordinary [OF a]
    by (simp add: onRefreshRequest_area_def refreshOwn_unfold Let_def split: prod.splits)
qed

lemma ordinaryIds_refreshOwn:
  assumes "areaChildrenOk v" and "ordinaryIds v"
  shows "ordinaryIds (refreshOwn v)"
proof -
  from refresh_area_children [OF assms(1)] obtain V where
    W: "widgets (refreshOwn v) = V @ filter (\<lambda>w. \<not> isItemView w) (widgets v)"
    and V2: "itemIds_of V = outputItemIds (contents (area v))"
    by blast
  have "itemIds_of (widgets (refreshOwn v)) = outputItemIds (contents (area v))"
    using W V2 by (simp add: itemIds_of_append itemIds_of_others)
  then show ?thesis using assms(2) refreshOwn_frame [of v] by (simp add: ordinaryIds_def)
qed

text \<open>
  The conditions on the children and on the ids hold for a new area view whose model has
  ordinary ids, and a run keeps them when the ids of the model do not repeat.
\<close>

lemma areaChildrenOk_refresh:
  assumes "areaChildrenOk v" and "ordinaryIds v"
    and "distinct (outputItemIds (contents (area v)))"
  shows "\<exists>v'. onRefreshRequest_area v = Inr v' \<and> areaChildrenOk v' \<and> ordinaryIds v'"
  using assms onRefreshRequest_area_ordinary areaChildrenOk_refreshOwn ordinaryIds_refreshOwn
  by simp

text \<open>
  C1 (as amended). Let the children of the area's layout be distinct objects, no two item
  views among them carrying the same item id, and let no item id, of the model or of a
  live view, be a name that objects inherit. One run of the area refresh then reaches its
  end and leaves the item views first, in exactly the order of the model's item ids,
  followed by the children that are not item views. A live item view is disposed of if and
  only if its id is no longer among the model's ids; a live item view whose id is still
  there stays a child, the same object, whatever its old position; what is disposed of was
  a child and is one no longer; and when the model's ids do not repeat, a view is
  constructed only for an id that no live view carries.
\<close>

theorem area_refresh_reconciles:
  assumes ok: "areaChildrenOk v" and ord: "ordinaryIds v" and lg: "oplog v = []"
  shows "\<exists>v'. onRefreshRequest_area v = Inr v'
       \<and> list_all isItemView (take (length (outputItemIds (contents (area v)))) (widgets v'))
       \<and> itemIds_of (take (length (outputItemIds (contents (area v)))) (widgets v'))
           = outputItemIds (contents (area v))
       \<and> drop (length (outputItemIds (contents (area v)))) (widgets v')
           = filter (\<lambda>w. \<not> isItemView w) (widgets v)
       \<and> (\<forall>r k. ItemView r k \<in> set (widgets v) \<longrightarrow>
             (Dispose (ItemView r k) \<in> set (oplog v')
                \<longleftrightarrow> k \<notin> set (outputItemIds (contents (area v)))))
       \<and> (\<forall>r k. ItemView r k \<in> set (widgets v) \<longrightarrow> k \<in> set (outputItemIds (contents (area v)))
             \<longrightarrow> ItemView r k \<in> set (widgets v'))
       \<and> (\<forall>w. Dispose w \<in> set (oplog v') \<longrightarrow> w \<in> set (widgets v) \<and> w \<notin> set (widgets v'))
       \<and> (distinct (outputItemIds (contents (area v))) \<longrightarrow>
             (\<forall>r k. Create (ItemView r k) \<in> set (oplog v') \<longrightarrow>
                k \<in> set (outputItemIds (contents (area v))) \<and> k \<notin> set (itemIds_of (widgets v))))"
  using onRefreshRequest_area_ordinary [OF ord] refreshOwn_reconciles [OF ok lg]
  by (intro exI [of _ "refreshOwn v"]) simp

text \<open>
  The instance of the specification: live views for \<open>a\<close>, \<open>b\<close>, \<open>c\<close> and the model order
  \<open>c\<close>, \<open>a\<close>, \<open>b\<close>. The run performs one call of \<^verbatim>\<open>insertWidget\<close>, which moves the view of
  \<open>c\<close> to the front; nothing is constructed and nothing is disposed of.
\<close>

theorem area_refresh_reconciles_witness:
  "areaChildrenOk abc \<and> ordinaryIds abc \<and> oplog abc = []
   \<and> outputItemIds (contents (area abc)) = [''c'', ''a'', ''b'']
   \<and> itemIds_of (widgets abc) = [''a'', ''b'', ''c'']
   \<and> onRefreshRequest_area abc = Inr abc_moved
   \<and> widgets abc_moved = [ItemView 3 ''c'', ItemView 1 ''a'', ItemView 2 ''b'']
   \<and> oplog abc_moved = [InsertWidget 0 (ItemView 3 ''c'')]"
proof -
  have h1: "areaChildrenOk abc" by code_simp
  have h2: "ordinaryIds abc" by code_simp
  have h3: "oplog abc = []" by code_simp
  have e1: "outputItemIds (contents (area abc)) = [''c'', ''a'', ''b'']" by code_simp
  have e2: "itemIds_of (widgets abc) = [''a'', ''b'', ''c'']" by code_simp
  have e3: "refreshOwn abc = abc_moved" by code_simp
  have e4: "widgets abc_moved = [ItemView 3 ''c'', ItemView 1 ''a'', ItemView 2 ''b'']"
    and e5: "oplog abc_moved = [InsertWidget 0 (ItemView 3 ''c'')]"
    by (simp_all add: abc_moved_def)
  from area_refresh_reconciles [OF h1 h2 h3] obtain v' where
    r: "onRefreshRequest_area abc = Inr v'" by blast
  then have "v' = refreshOwn abc" by (rule onRefreshRequest_area_Inr)
  with r e3 have "onRefreshRequest_area abc = Inr abc_moved" by simp
  with h1 h2 h3 e1 e2 e4 e5 show ?thesis by blast
qed

text \<open>
  C1 as stated, for every sequence of ids and every child list, fails. With the id \<open>a\<close>
  listed twice, the first run on a new area view constructs two views for \<open>a\<close>; the
  lookup of the next run holds only the later one, so the run moves it to the front,
  constructs a third view, and leaves three children for two ids. With the id
  \<open>constructor\<close>, the run on a new area view finds the inherited value, constructs no view
  and raises.
\<close>

theorem area_refresh_duplicate_ids_counterexample:
  "onRefreshRequest_area twice_a = Inr twice_a_once
   \<and> widgets twice_a_once = [ItemView 1 ''a'', ItemView 2 ''a'']
   \<and> outputItemIds (contents (area twice_a_once)) = [''a'', ''a'']
   \<and> map_sum id widgets (onRefreshRequest_area twice_a_once)
       = Inr [ItemView 2 ''a'', ItemView 3 ''a'', ItemView 1 ''a'']
   \<and> map_sum id (\<lambda>v. itemIds_of (widgets v)) (onRefreshRequest_area twice_a_once)
       \<noteq> Inr (outputItemIds (contents (area twice_a_once)))
   \<and> areaChildrenOk inherited_id \<and> oplog inherited_id = []
   \<and> outputItemIds (contents (area inherited_id)) = [''constructor'']
   \<and> onRefreshRequest_area inherited_id = Inl TypeError"
  by code_simp

text \<open>
  C2 (as amended). When the ids of the model do not repeat (and the children and the ids
  are as for C1), a second run of the area refresh with no change of the model in between
  performs no operation: it constructs no view, calls \<^verbatim>\<open>insertWidget\<close> for none, disposes
  of none, and leaves the whole state of the view as the first run left it.
\<close>

theorem area_refresh_idempotent:
  assumes ok: "areaChildrenOk v" and ord: "ordinaryIds v"
    and d: "distinct (outputItemIds (contents (area v)))"
  shows "\<exists>v'. onRefreshRequest_area v = Inr v'
       \<and> onRefreshRequest_area (v'\<lparr>oplog := []\<rparr>) = Inr (v'\<lparr>oplog := []\<rparr>)"
proof -
  let ?s = "(refreshOwn v)\<lparr>oplog := []\<rparr>"
  have o: "ordinaryIds ?s"
    using ordinaryIds_refreshOwn [OF ok ord] by (simp add: ordinaryIds_def)
  have "onRefreshRequest_area ?s = Inr (refreshOwn ?s)"
    using o by (rule onRefreshRequest_area_ordinary)
  then have "onRefreshRequest_area ?s = Inr ?s"
    using refreshOwn_idempotent [OF ok d] by simp
  with onRefreshRequest_area_ordinary [OF ord] show ?thesis by blast
qed

theorem area_refresh_idempotent_witness:
  "areaChildrenOk abc \<and> ordinaryIds abc \<and> distinct (outputItemIds (contents (area abc)))
   \<and> onRefreshRequest_area abc = Inr abc_moved
   \<and> onRefreshRequest_area (abc_moved\<lparr>oplog := []\<rparr>) = Inr (abc_moved\<lparr>oplog := []\<rparr>)
   \<and> oplog (abc_moved\<lparr>oplog := []\<rparr>) = []"
proof -
  have h1: "areaChildrenOk abc" by code_simp
  have h2: "ordinaryIds abc" by code_simp
  have h3: "distinct (outputItemIds (contents (area abc)))" by code_simp
  have e: "refreshOwn abc = abc_moved" by code_simp
  from area_refresh_idempotent [OF h1 h2 h3] obtain v' where
    r: "onRefreshRequest_area abc = Inr v'"
    and i: "onRefreshRequest_area (v'\<lparr>oplog := []\<rparr>) = Inr (v'\<lparr>oplog := []\<rparr>)" by blast
  from r have v: "v' = refreshOwn abc" by (rule onRefreshRequest_area_Inr)
  from r i v e h1 h2 h3 show ?thesis by simp
qed

text \<open>
  C2 as stated, for every area state, fails when the model lists an id twice: after the
  first run on a new area view the second run moves one view and constructs another. When
  the model lists the id \<open>constructor\<close> before the id \<open>a\<close>, the first run raises before it
  comes to \<open>a\<close>.
\<close>

theorem area_refresh_second_run_counterexample:
  "onRefreshRequest_area twice_a = Inr twice_a_once
   \<and> onRefreshRequest_area (twice_a_once\<lparr>oplog := []\<rparr>) = Inr twice_a_twice
   \<and> oplog twice_a_twice
       = [InsertWidget 0 (ItemView 2 ''a''), Create (ItemView 3 ''a''),
          InsertWidget 1 (ItemView 3 ''a'')]
   \<and> twice_a_twice \<noteq> twice_a_once\<lparr>oplog := []\<rparr>
   \<and> distinct (outputItemIds (contents (area inherited_then_a)))
   \<and> outputItemIds (contents (area inherited_then_a)) = [''constructor'', ''a'']
   \<and> onRefreshRequest_area inherited_then_a = Inl TypeError"
  by code_simp

text \<open>
  A run that reaches its end keeps every child that is not an item view, in place among
  such children, and each of its operations is on an item view; the lookup holds item
  views only.
\<close>

lemma area_refresh_others_kept:
  assumes "onRefreshRequest_area v = Inr v'"
  shows "filter (\<lambda>w. \<not> isItemView w) (widgets v') = filter (\<lambda>w. \<not> isItemView w) (widgets v)
       \<and> list_all (\<lambda>p. isItemView (snd p)) (collectItemViews (widgets v) [])
       \<and> list_all (\<lambda>op. isItemView (op_widget op)) (drop (length (oplog v)) (oplog v'))"
  using onRefreshRequest_area_Inr [OF assms] refreshOwn_keeps_others [of v] by simp


section \<open>The renderer of an item view\<close>

text \<open>
  The renderer in the layout of an item view is the one created for the recorded mime
  type, and it is older than the next free reference. This holds for a new view and is
  kept by every refresh and every change notification.
\<close>

lemma rendererBound_new: "rendererBound (new_OutputItemView r k)"
  by (simp add: rendererBound_def new_OutputItemView_def)

lemma rendererBound_refresh:
  "rendererBound v \<Longrightarrow> rendererBound (onRefreshRequest_item rendermime v)"
  by (auto simp: rendererBound_def onRefreshRequest_item_def Let_def set_layout_widget_def
           split: option.splits if_splits)

lemma rendererBound_storeChanged:
  "rendererBound v \<Longrightarrow> rendererBound (fst (onStoreChanged_item state (v, queue)))"
  by (auto simp: rendererBound_def onStoreChanged_item_def Let_def split: option.splits)

text \<open>
  C4. On an item refresh, when the layout holds a renderer and the recorded mime type is
  the newly preferred one, that renderer renders the new model and stays in the layout: no
  renderer is created and none is disposed of. When a preferred mime type exists and
  differs from the recorded one, a new renderer is created for the preferred mime type and
  renders the model, and it replaces the old one, which is disposed of.
\<close>

theorem item_refresh_reuses_or_replaces:
  assumes "rendererBound v"
  shows "(\<forall>r. layout_widget v = Some r \<longrightarrow> dataset_mimeType v = Some (preferred rendermime v) \<longrightarrow>
            layout_widget (onRefreshRequest_item rendermime v)
              = Some (r\<lparr>rendered := Some (mimeModel v)\<rparr>)
          \<and> calls (onRefreshRequest_item rendermime v)
              = calls v @ [RenderModel (renderer_ref r) (mimeModel v)]
          \<and> heap_next (onRefreshRequest_item rendermime v) = heap_next v)
       \<and> (preferred rendermime v \<noteq> [] \<longrightarrow> dataset_mimeType v \<noteq> Some (preferred rendermime v) \<longrightarrow>
            layout_widget (onRefreshRequest_item rendermime v)
              = Some \<lparr>renderer_ref = heap_next v, renderer_mimeType = preferred rendermime v,
                      renderer_classes = [''jp-OutputItemView-renderer''],
                      rendered = Some (mimeModel v)\<rparr>
          \<and> calls (onRefreshRequest_item rendermime v)
              = calls v @ [CreateRenderer (heap_next v) (preferred rendermime v),
                           RenderModel (heap_next v) (mimeModel v)]
                  @ (case layout_widget v of None \<Rightarrow> []
                     | Some old \<Rightarrow> [DisposeRenderer (renderer_ref old)])
          \<and> heap_next (onRefreshRequest_item rendermime v) = Suc (heap_next v)
          \<and> dataset_mimeType (onRefreshRequest_item rendermime v) = Some (preferred rendermime v))"
  using assms
  by (auto simp: rendererBound_def onRefreshRequest_item_def Let_def set_layout_widget_def
           split: option.splits)

text \<open>
  A stream item is shown, then its text grows: the same renderer, with reference 4,
  renders the new model. Then the item becomes display data of another mime type: a new
  renderer, with reference 5, replaces it.
\<close>

theorem item_refresh_reuses_or_replaces_witness:
  "rendererBound (shown stdout_hi)
   \<and> layout_widget (shown stdout_hi)
       = Some \<lparr>renderer_ref = 4, renderer_mimeType = ''application/vnd.jupyter.stdout'',
               renderer_classes = [''jp-OutputItemView-renderer''],
               rendered = Some (mimeModel ((new_OutputItemView 3 ''i1'')\<lparr>item := stdout_hi\<rparr>))\<rparr>
   \<and> preferred first_key ((shown stdout_hi)\<lparr>item := stdout_hi_there\<rparr>)
       = ''application/vnd.jupyter.stdout''
   \<and> layout_widget (onRefreshRequest_item first_key ((shown stdout_hi)\<lparr>item := stdout_hi_there\<rparr>))
       = Some \<lparr>renderer_ref = 4, renderer_mimeType = ''application/vnd.jupyter.stdout'',
               renderer_classes = [''jp-OutputItemView-renderer''],
               rendered = Some (mimeModel ((shown stdout_hi)\<lparr>item := stdout_hi_there\<rparr>))\<rparr>
   \<and> heap_next (onRefreshRequest_item first_key ((shown stdout_hi)\<lparr>item := stdout_hi_there\<rparr>)) = 5
   \<and> preferred first_key ((shown stdout_hi)\<lparr>item := plain_one\<rparr>) = ''text/plain''
   \<and> layout_widget (onRefreshRequest_item first_key ((shown stdout_hi)\<lparr>item := plain_one\<rparr>))
       = Some \<lparr>renderer_ref = 5, renderer_mimeType = ''text/plain'',
               renderer_classes = [''jp-OutputItemView-renderer''],
               rendered = Some (mimeModel ((shown stdout_hi)\<lparr>item := plain_one\<rparr>))\<rparr>
   \<and> calls (onRefreshRequest_item first_key ((shown stdout_hi)\<lparr>item := plain_one\<rparr>))
       = calls (shown stdout_hi)
           @ [CreateRenderer 5 ''text/plain'',
              RenderModel 5 (mimeModel ((shown stdout_hi)\<lparr>item := plain_one\<rparr>)),
              DisposeRenderer 4]"
proof -
  let ?a = "(shown stdout_hi)\<lparr>item := stdout_hi_there\<rparr>"
  let ?b = "(shown stdout_hi)\<lparr>item := plain_one\<rparr>"
  have b0: "rendererBound (shown stdout_hi)" by code_simp
  have ba: "rendererBound ?a" by code_simp
  have bb: "rendererBound ?b" by code_simp
  have w: "layout_widget (shown stdout_hi)
       = Some \<lparr>renderer_ref = 4, renderer_mimeType = ''application/vnd.jupyter.stdout'',
               renderer_classes = [''jp-OutputItemView-renderer''],
               rendered = Some (mimeModel ((new_OutputItemView 3 ''i1'')\<lparr>item := stdout_hi\<rparr>))\<rparr>"
    by code_simp
  have wa: "layout_widget ?a = layout_widget (shown stdout_hi)"
    and wb: "layout_widget ?b = layout_widget (shown stdout_hi)"
    and cb: "calls ?b = calls (shown stdout_hi)"
    by simp_all
  have pa: "preferred first_key ?a = ''application/vnd.jupyter.stdout''" by code_simp
  have pb: "preferred first_key ?b = ''text/plain''" by code_simp
  have da: "dataset_mimeType ?a = Some (preferred first_key ?a)" by code_simp
  have db: "dataset_mimeType ?b \<noteq> Some (preferred first_key ?b)" by code_simp
  have ha: "heap_next ?a = 5" and hb: "heap_next ?b = 5" by code_simp+
  from item_refresh_reuses_or_replaces [OF ba, of first_key] wa w da ha
  have A: "layout_widget (onRefreshRequest_item first_key ?a)
       = Some \<lparr>renderer_ref = 4, renderer_mimeType = ''application/vnd.jupyter.stdout'',
               renderer_classes = [''jp-OutputItemView-renderer''],
               rendered = Some (mimeModel ?a)\<rparr>
     \<and> heap_next (onRefreshRequest_item first_key ?a) = 5"
    by simp
  from item_refresh_reuses_or_replaces [OF bb, of first_key] wb w db pb hb cb
  have B: "layout_widget (onRefreshRequest_item first_key ?b)
       = Some \<lparr>renderer_ref = 5, renderer_mimeType = ''text/plain'',
               renderer_classes = [''jp-OutputItemView-renderer''],
               rendered = Some (mimeModel ?b)\<rparr>
     \<and> calls (onRefreshRequest_item first_key ?b)
       = calls (shown stdout_hi)
           @ [CreateRenderer 5 ''text/plain'', RenderModel 5 (mimeModel ?b), DisposeRenderer 4]"
    by simp
  from b0 w pa pb A B show ?thesis by simp
qed

text \<open>
  C5. On an item refresh for which the registry resolves no preferred mime type, the
  layout is cleared, which disposes of the renderer it held, and no renderer is created.
\<close>

theorem item_refresh_without_mime_type:
  assumes "rendererBound v" and "preferred rendermime v = []"
  shows "layout_widget (onRefreshRequest_item rendermime v) = None
       \<and> calls (onRefreshRequest_item rendermime v)
           = calls v @ (case layout_widget v of None \<Rightarrow> []
                        | Some old \<Rightarrow> [DisposeRenderer (renderer_ref old)])
       \<and> heap_next (onRefreshRequest_item rendermime v) = heap_next v
       \<and> dataset_mimeType (onRefreshRequest_item rendermime v) = Some []"
  using assms
  by (auto simp: rendererBound_def onRefreshRequest_item_def Let_def set_layout_widget_def
           split: option.splits)

theorem item_refresh_without_mime_type_witness:
  "rendererBound ((shown stdout_hi)\<lparr>item := emptyItem\<rparr>)
   \<and> preferred first_key ((shown stdout_hi)\<lparr>item := emptyItem\<rparr>) = []
   \<and> layout_widget ((shown stdout_hi)\<lparr>item := emptyItem\<rparr>)
       = Some \<lparr>renderer_ref = 4, renderer_mimeType = ''application/vnd.jupyter.stdout'',
               renderer_classes = [''jp-OutputItemView-renderer''],
               rendered = Some (mimeModel ((new_OutputItemView 3 ''i1'')\<lparr>item := stdout_hi\<rparr>))\<rparr>
   \<and> layout_widget (onRefreshRequest_item first_key ((shown stdout_hi)\<lparr>item := emptyItem\<rparr>)) = None
   \<and> calls (onRefreshRequest_item first_key ((shown stdout_hi)\<lparr>item := emptyItem\<rparr>))
       = calls (shown stdout_hi) @ [DisposeRenderer 4]
   \<and> heap_next (onRefreshRequest_item first_key ((shown stdout_hi)\<lparr>item := emptyItem\<rparr>)) = 5"
proof -
  let ?c = "(shown stdout_hi)\<lparr>item := emptyItem\<rparr>"
  have bc: "rendererBound ?c" by code_simp
  have pc: "preferred first_key ?c = []" by code_simp
  have w: "layout_widget ?c
       = Some \<lparr>renderer_ref = 4, renderer_mimeType = ''application/vnd.jupyter.stdout'',
               renderer_classes = [''jp-OutputItemView-renderer''],
               rendered = Some (mimeModel ((new_OutputItemView 3 ''i1'')\<lparr>item := stdout_hi\<rparr>))\<rparr>"
    by code_simp
  have cc: "calls ?c = calls (shown stdout_hi)" by simp
  have hc: "heap_next ?c = 5" by code_simp
  from item_refresh_without_mime_type [OF bc pc] bc pc w cc hc show ?thesis by simp
qed

section \<open>Change notifications of the store\<close>

text \<open>
  C6. An area id or an item id that the tables of the store do not hold resolves to the
  default: the change handlers put \<^verbatim>\<open>Private.emptyArea\<close> and \<^verbatim>\<open>Private.emptyItem\<close> in
  the place of a failed lookup, and a new view starts with them. The defaults are an area
  without items and a display-data item with an empty bundle.
\<close>

theorem missing_ids_resolve_to_defaults:
  "(outputAreaTable state (areaId av) = None \<longrightarrow>
      area (fst (onStoreChanged_area state (av, queue))) = emptyArea)
   \<and> (outputItemTable state (itemId iv) = None \<longrightarrow>
      item (fst (onStoreChanged_item state (iv, queue))) = emptyItem)
   \<and> area (new_OutputAreaView r k) = emptyArea
   \<and> item (new_OutputItemView r k) = emptyItem
   \<and> contents emptyArea = \<lparr>area_trusted = False, outputItemIds = []\<rparr>
   \<and> item_type (contents emptyItem) = ''display_data''
   \<and> getData (contents emptyItem) = [] \<and> getMetadata (contents emptyItem) = []"
  by (auto simp: onStoreChanged_area_def onStoreChanged_item_def Let_def
        new_OutputAreaView_def new_OutputItemView_def emptyArea_def emptyItem_def
        getData_def getMetadata_def)

text \<open>
  After the store has lost its entries, the area view holds the empty area and its refresh
  leaves no child; the item view holds the empty item and its refresh presents nothing.
\<close>

theorem missing_ids_resolve_to_defaults_witness:
  "outputAreaTable cleared_store (areaId abc) = None
   \<and> area abc \<noteq> emptyArea
   \<and> area (fst (onStoreChanged_area cleared_store (abc, []))) = emptyArea
   \<and> map_sum id widgets
        (onRefreshRequest_area (fst (onStoreChanged_area cleared_store (abc, [])))) = Inr []
   \<and> outputItemTable cleared_store (itemId (shown stdout_hi)) = None
   \<and> item (shown stdout_hi) \<noteq> emptyItem
   \<and> item (fst (onStoreChanged_item cleared_store (shown stdout_hi, []))) = emptyItem
   \<and> layout_widget (onRefreshRequest_item first_key
        (fst (onStoreChanged_item cleared_store (shown stdout_hi, [])))) = None"
proof -
  have a: "outputAreaTable cleared_store (areaId abc) = None" by code_simp
  have b: "outputItemTable cleared_store (itemId (shown stdout_hi)) = None" by code_simp
  have c: "area abc \<noteq> emptyArea" by code_simp
  have d: "item (shown stdout_hi) \<noteq> emptyItem" by code_simp
  have e: "map_sum id widgets
        (onRefreshRequest_area (fst (onStoreChanged_area cleared_store (abc, [])))) = Inr []"
    by code_simp
  have f: "layout_widget (onRefreshRequest_item first_key
        (fst (onStoreChanged_item cleared_store (shown stdout_hi, [])))) = None"
    by code_simp
  from missing_ids_resolve_to_defaults [of cleared_store abc "[]" "shown stdout_hi"] a b c d e f
  show ?thesis by simp
qed

lemma pendingRefreshes_refresh_same:
  "0 < pendingRefreshes h (refresh h queue)"
  by (induction queue)
     (auto simp: pendingRefreshes_def refresh_def postMessage_def RefreshRequest_def
           split: if_splits)

text \<open>
  C9. A change handler compares the object it looked up with the object the view holds,
  by identity. When they are the same object the handler returns and posts nothing; when
  they differ it stores the new object and posts a refresh request.
\<close>

theorem store_change_detection_by_reference:
  "((case outputAreaTable state (areaId av) of None \<Rightarrow> emptyArea | Some x \<Rightarrow> x) = area av \<longrightarrow>
      onStoreChanged_area state (av, queue) = (av, queue))
   \<and> ((case outputAreaTable state (areaId av) of None \<Rightarrow> emptyArea | Some x \<Rightarrow> x) \<noteq> area av \<longrightarrow>
      onStoreChanged_area state (av, queue)
        = (av\<lparr>area := (case outputAreaTable state (areaId av) of None \<Rightarrow> emptyArea | Some x \<Rightarrow> x)\<rparr>,
           refresh (area_view_ref av) queue)
      \<and> 0 < pendingRefreshes (area_view_ref av) (snd (onStoreChanged_area state (av, queue))))
   \<and> ((case outputItemTable state (itemId iv) of None \<Rightarrow> emptyItem | Some x \<Rightarrow> x) = item iv \<longrightarrow>
      onStoreChanged_item state (iv, queue) = (iv, queue))
   \<and> ((case outputItemTable state (itemId iv) of None \<Rightarrow> emptyItem | Some x \<Rightarrow> x) \<noteq> item iv \<longrightarrow>
      onStoreChanged_item state (iv, queue)
        = (iv\<lparr>item := (case outputItemTable state (itemId iv) of None \<Rightarrow> emptyItem | Some x \<Rightarrow> x)\<rparr>,
           refresh (view_ref iv) queue)
      \<and> 0 < pendingRefreshes (view_ref iv) (snd (onStoreChanged_item state (iv, queue))))"
  using pendingRefreshes_refresh_same [of "area_view_ref av" queue]
        pendingRefreshes_refresh_same [of "view_ref iv" queue]
  by (auto simp: onStoreChanged_area_def onStoreChanged_item_def Let_def)

text \<open>
  The comparison is not by contents: an object with the contents of the one the view holds,
  at another address, makes the handler store it and post a refresh request.
\<close>

theorem store_change_detection_by_reference_witness:
  "outputItemTable (store_with stdout_hi) (itemId (shown stdout_hi)) = Some (item (shown stdout_hi))
   \<and> onStoreChanged_item (store_with stdout_hi) (shown stdout_hi, []) = (shown stdout_hi, [])
   \<and> contents stdout_hi_copy = contents (item (shown stdout_hi))
   \<and> stdout_hi_copy \<noteq> item (shown stdout_hi)
   \<and> onStoreChanged_item (store_with stdout_hi_copy) (shown stdout_hi, [])
       = ((shown stdout_hi)\<lparr>item := stdout_hi_copy\<rparr>, [(3, RefreshRequest)])"
proof -
  have a: "outputItemTable (store_with stdout_hi) (itemId (shown stdout_hi))
             = Some (item (shown stdout_hi))" by code_simp
  have b: "outputItemTable (store_with stdout_hi_copy) (itemId (shown stdout_hi))
             = Some stdout_hi_copy" by code_simp
  have c: "contents stdout_hi_copy = contents (item (shown stdout_hi))" by code_simp
  have d: "stdout_hi_copy \<noteq> item (shown stdout_hi)" by code_simp
  have e: "refresh (view_ref (shown stdout_hi)) [] = [(3, RefreshRequest)]" by code_simp
  from store_change_detection_by_reference [of "store_with stdout_hi" abc "[]" "shown stdout_hi"]
       store_change_detection_by_reference [of "store_with stdout_hi_copy" abc "[]" "shown stdout_hi"]
       a b c d e
  show ?thesis by simp
qed

text \<open>
  After a change notification the view holds the object that the tables of the notified
  state resolve to.
\<close>

lemma item_after_notification:
  "item (fst (onStoreChanged_item state (v, queue)))
     = (case outputItemTable state (itemId v) of None \<Rightarrow> emptyItem | Some x \<Rightarrow> x)"
  by (simp add: onStoreChanged_item_def Let_def)

lemma area_after_notification:
  "area (fst (onStoreChanged_area state (v, queue)))
     = (case outputAreaTable state (areaId v) of None \<Rightarrow> emptyArea | Some x \<Rightarrow> x)"
  by (simp add: onStoreChanged_area_def Let_def)

section \<open>Conflation of refresh requests\<close>

lemma refresh_cases:
  assumes "onlyRefreshes queue"
  shows "refresh h queue = (if h \<in> fst ` set queue then queue else queue @ [(h, RefreshRequest)])"
proof -
  have "list_ex (\<lambda>(h', m). h' = h \<and> isConflatable m \<and> msg_type m = msg_type RefreshRequest) queue
          \<longleftrightarrow> h \<in> fst ` set queue"
    using assms
    by (force simp: onlyRefreshes_def list_ex_iff list_all_iff RefreshRequest_def)
  then show ?thesis by (simp add: refresh_def postMessage_def RefreshRequest_def)
qed

lemma onlyRefreshes_refresh: "onlyRefreshes queue \<Longrightarrow> onlyRefreshes (refresh h queue)"
  by (auto simp: refresh_cases) (auto simp: onlyRefreshes_def)

lemma handlers_refresh:
  "onlyRefreshes queue \<Longrightarrow> fst ` set (refresh h queue) = insert h (fst ` set queue)"
  by (auto simp: refresh_cases)

lemma pendingRefreshes_count:
  assumes "onlyRefreshes queue"
  shows "pendingRefreshes h queue = (if h \<in> fst ` set queue then 1 else 0)"
  using assms
proof (induction queue)
  case Nil
  show ?case by (simp add: pendingRefreshes_def)
next
  case (Cons p queue)
  then have o: "onlyRefreshes queue" and s: "snd p = RefreshRequest"
    and n: "fst p \<notin> fst ` set queue"
    by (auto simp: onlyRefreshes_def)
  from Cons.IH [OF o] have ih: "pendingRefreshes h queue = (if h \<in> fst ` set queue then 1 else 0)" .
  obtain h' m where p: "p = (h', m)" by (cases p)
  show ?case
  proof (cases "h' = h")
    case True
    with n p have "h \<notin> fst ` set queue" by simp
    with ih True p s show ?thesis
      by (simp add: pendingRefreshes_def RefreshRequest_def)
  next
    case False
    with ih p show ?thesis by (simp add: pendingRefreshes_def)
  qed
qed

lemma onlyRefreshes_fold: "onlyRefreshes queue \<Longrightarrow> onlyRefreshes (fold refresh hs queue)"
  by (induction hs arbitrary: queue) (auto simp: onlyRefreshes_refresh)

lemma handlers_fold:
  "onlyRefreshes queue \<Longrightarrow> fst ` set (fold refresh hs queue) = set hs \<union> fst ` set queue"
  by (induction hs arbitrary: queue) (auto simp: onlyRefreshes_refresh handlers_refresh)

lemma refresh_twice: "refresh h (refresh h queue) = refresh h queue"
  by (auto simp: refresh_def postMessage_def RefreshRequest_def list_ex_iff)

lemma view_ref_storeChanged:
  "view_ref (fst (onStoreChanged_item state (v, queue))) = view_ref v"
  by (simp add: onStoreChanged_item_def Let_def)

lemma queue_storeChanged_item:
  "snd (onStoreChanged_item state (v, queue)) = queue
   \<or> snd (onStoreChanged_item state (v, queue)) = refresh (view_ref v) queue"
  by (simp add: onStoreChanged_item_def Let_def)

lemma queue_storeChanged_area:
  "snd (onStoreChanged_area state (v, queue)) = queue
   \<or> snd (onStoreChanged_area state (v, queue)) = refresh (area_view_ref v) queue"
  by (simp add: onStoreChanged_area_def Let_def)

lemma area_view_ref_storeChanged:
  "area_view_ref (fst (onStoreChanged_area state (v, queue))) = area_view_ref v"
  by (simp add: onStoreChanged_area_def Let_def)

lemma turn_item_queue:
  "view_ref (fst (turn_item es (v, queue))) = view_ref v
   \<and> (snd (turn_item es (v, queue)) = queue
        \<or> snd (turn_item es (v, queue)) = refresh (view_ref v) queue)
   \<and> (RefreshCall \<in> set es \<longrightarrow> snd (turn_item es (v, queue)) = refresh (view_ref v) queue)"
proof (induction es arbitrary: v queue)
  case Nil
  show ?case by simp
next
  case (Cons e es)
  show ?case
  proof (cases e)
    case (StoreChanged state)
    obtain v1 q1 where c: "onStoreChanged_item state (v, queue) = (v1, q1)"
      by (cases "onStoreChanged_item state (v, queue)")
    have r: "view_ref v1 = view_ref v" using view_ref_storeChanged [of state v queue] c by simp
    have q: "q1 = queue \<or> q1 = refresh (view_ref v) queue"
      using queue_storeChanged_item [of state v queue] c by simp
    have t: "turn_item (e # es) (v, queue) = turn_item es (v1, q1)"
      using StoreChanged c by simp
    have m: "RefreshCall \<in> set (e # es) \<longleftrightarrow> RefreshCall \<in> set es"
      using StoreChanged by simp
    note ih = Cons.IH [of v1 q1]
    have i1: "view_ref (fst (turn_item es (v1, q1))) = view_ref v" using ih r by simp
    have i2: "snd (turn_item es (v1, q1)) = q1
              \<or> snd (turn_item es (v1, q1)) = refresh (view_ref v) q1" using ih r by simp
    have i3: "RefreshCall \<in> set es \<longrightarrow> snd (turn_item es (v1, q1)) = refresh (view_ref v) q1"
      using ih r by simp
    have rr: "refresh (view_ref v) q1 = refresh (view_ref v) queue"
      using q refresh_twice [of "view_ref v" queue] by auto
    have j2: "snd (turn_item es (v1, q1)) = queue
              \<or> snd (turn_item es (v1, q1)) = refresh (view_ref v) queue"
      using i2 q rr by auto
    have j3: "RefreshCall \<in> set es \<longrightarrow> snd (turn_item es (v1, q1)) = refresh (view_ref v) queue"
      using i3 rr by simp
    from i1 j2 j3 show ?thesis unfolding t m by blast
  next
    case RefreshCall
    have t: "turn_item (e # es) (v, queue) = turn_item es (v, refresh (view_ref v) queue)"
      using RefreshCall by simp
    note ih = Cons.IH [of v "refresh (view_ref v) queue"]
    have j: "snd (turn_item es (v, refresh (view_ref v) queue)) = refresh (view_ref v) queue"
      using ih refresh_twice [of "view_ref v" queue] by auto
    have i1: "view_ref (fst (turn_item es (v, refresh (view_ref v) queue))) = view_ref v"
      using ih by simp
    from i1 j show ?thesis unfolding t by simp
  qed
qed

lemma turn_area_queue:
  "area_view_ref (fst (turn_area es (v, queue))) = area_view_ref v
   \<and> (snd (turn_area es (v, queue)) = queue
        \<or> snd (turn_area es (v, queue)) = refresh (area_view_ref v) queue)
   \<and> (RefreshCall \<in> set es \<longrightarrow> snd (turn_area es (v, queue)) = refresh (area_view_ref v) queue)"
proof (induction es arbitrary: v queue)
  case Nil
  show ?case by simp
next
  case (Cons e es)
  show ?case
  proof (cases e)
    case (StoreChanged state)
    obtain v1 q1 where c: "onStoreChanged_area state (v, queue) = (v1, q1)"
      by (cases "onStoreChanged_area state (v, queue)")
    have r: "area_view_ref v1 = area_view_ref v"
      using area_view_ref_storeChanged [of state v queue] c by simp
    have q: "q1 = queue \<or> q1 = refresh (area_view_ref v) queue"
      using queue_storeChanged_area [of state v queue] c by simp
    have t: "turn_area (e # es) (v, queue) = turn_area es (v1, q1)"
      using StoreChanged c by simp
    have m: "RefreshCall \<in> set (e # es) \<longleftrightarrow> RefreshCall \<in> set es"
      using StoreChanged by simp
    note ih = Cons.IH [of v1 q1]
    have i1: "area_view_ref (fst (turn_area es (v1, q1))) = area_view_ref v" using ih r by simp
    have i2: "snd (turn_area es (v1, q1)) = q1
              \<or> snd (turn_area es (v1, q1)) = refresh (area_view_ref v) q1" using ih r by simp
    have i3: "RefreshCall \<in> set es \<longrightarrow> snd (turn_area es (v1, q1)) = refresh (area_view_ref v) q1"
      using ih r by simp
    have rr: "refresh (area_view_ref v) q1 = refresh (area_view_ref v) queue"
      using q refresh_twice [of "area_view_ref v" queue] by auto
    have j2: "snd (turn_area es (v1, q1)) = queue
              \<or> snd (turn_area es (v1, q1)) = refresh (area_view_ref v) queue"
      using i2 q rr by auto
    have j3: "RefreshCall \<in> set es \<longrightarrow> snd (turn_area es (v1, q1)) = refresh (area_view_ref v) queue"
      using i3 rr by simp
    from i1 j2 j3 show ?thesis unfolding t m by blast
  next
    case RefreshCall
    have t: "turn_area (e # es) (v, queue) = turn_area es (v, refresh (area_view_ref v) queue)"
      using RefreshCall by simp
    note ih = Cons.IH [of v "refresh (area_view_ref v) queue"]
    have j: "snd (turn_area es (v, refresh (area_view_ref v) queue))
               = refresh (area_view_ref v) queue"
      using ih refresh_twice [of "area_view_ref v" queue] by auto
    have i1: "area_view_ref (fst (turn_area es (v, refresh (area_view_ref v) queue)))
                = area_view_ref v"
      using ih by simp
    from i1 j show ?thesis unfolding t by simp
  qed
qed

lemma refresh_empty: "refresh h [] = [(h, RefreshRequest)]"
  by (simp add: refresh_def postMessage_def)

lemma pendingRefreshes_one: "pendingRefreshes h [(h, RefreshRequest)] = 1"
  by (simp add: pendingRefreshes_def RefreshRequest_def)

text \<open>
  C7. Refresh requests posted for a view within one turn, by change notifications or by
  calls of \<^verbatim>\<open>refresh()\<close>, in any number and order, leave one pending request for that view:
  a second request for a node changes nothing in the queue; after any sequence of requests
  for any nodes, each node that was asked has exactly one pending request; and at the end of
  the turn the loop runs the refresh handler of the view once, or not at all when nothing
  was posted.
\<close>

theorem refresh_requests_conflate:
  "refresh h (refresh h queue) = refresh h queue
   \<and> pendingRefreshes h (fold refresh hs []) = (if h \<in> set hs then 1 else 0)
   \<and> pendingRefreshes (view_ref iv) (snd (turn_item es (iv, []))) \<le> 1
   \<and> pendingRefreshes (area_view_ref av) (snd (turn_area es (av, []))) \<le> 1
   \<and> (RefreshCall \<in> set es \<longrightarrow>
        pendingRefreshes (view_ref iv) (snd (turn_item es (iv, []))) = 1
        \<and> pendingRefreshes (area_view_ref av) (snd (turn_area es (av, []))) = 1)
   \<and> deliver_item rendermime (snd (turn_item es (iv, []))) (fst (turn_item es (iv, [])))
       = (if snd (turn_item es (iv, [])) = [] then fst (turn_item es (iv, []))
          else onRefreshRequest_item rendermime (fst (turn_item es (iv, []))))
   \<and> deliver_area (snd (turn_area es (av, []))) (fst (turn_area es (av, [])))
       = (if snd (turn_area es (av, [])) = [] then Inr (fst (turn_area es (av, [])))
          else onRefreshRequest_area (fst (turn_area es (av, []))))"
proof -
  have e: "onlyRefreshes []" by (simp add: onlyRefreshes_def)
  have a: "pendingRefreshes h (fold refresh hs []) = (if h \<in> set hs then 1 else 0)"
    using pendingRefreshes_count [OF onlyRefreshes_fold [OF e], of h hs] handlers_fold [OF e, of hs]
    by simp
  define vi where "vi = fst (turn_item es (iv, []))"
  define qi where "qi = snd (turn_item es (iv, []))"
  define va where "va = fst (turn_area es (av, []))"
  define qa where "qa = snd (turn_area es (av, []))"
  have ri: "view_ref vi = view_ref iv"
    and ci: "qi = [] \<or> qi = [(view_ref iv, RefreshRequest)]"
    and mi: "RefreshCall \<in> set es \<longrightarrow> qi = [(view_ref iv, RefreshRequest)]"
    using turn_item_queue [of es iv "[]"] by (simp_all add: vi_def qi_def refresh_empty)
  have ra: "area_view_ref va = area_view_ref av"
    and ca: "qa = [] \<or> qa = [(area_view_ref av, RefreshRequest)]"
    and ma: "RefreshCall \<in> set es \<longrightarrow> qa = [(area_view_ref av, RefreshRequest)]"
    using turn_area_queue [of es av "[]"] by (simp_all add: va_def qa_def refresh_empty)
  have z: "\<And>k. pendingRefreshes k [] = 0" by (simp add: pendingRefreshes_def)
  have b: "pendingRefreshes (view_ref iv) qi \<le> 1"
    using ci z pendingRefreshes_one [of "view_ref iv"] by auto
  have c: "pendingRefreshes (area_view_ref av) qa \<le> 1"
    using ca z pendingRefreshes_one [of "area_view_ref av"] by auto
  have d: "RefreshCall \<in> set es \<longrightarrow>
             pendingRefreshes (view_ref iv) qi = 1 \<and> pendingRefreshes (area_view_ref av) qa = 1"
    using mi ma pendingRefreshes_one by simp
  have f: "deliver_item rendermime qi vi
             = (if qi = [] then vi else onRefreshRequest_item rendermime vi)"
  proof (cases "qi = []")
    case True
    then show ?thesis by simp
  next
    case False
    with ci have "qi = [(view_ref iv, RefreshRequest)]" by simp
    then show ?thesis using ri by (simp add: processMessage_item_def RefreshRequest_def)
  qed
  have g: "deliver_area qa va = (if qa = [] then Inr va else onRefreshRequest_area va)"
  proof (cases "qa = []")
    case True
    then show ?thesis by simp
  next
    case False
    with ca have "qa = [(area_view_ref av, RefreshRequest)]" by simp
    then show ?thesis using ra
      by (simp add: processMessage_area_def RefreshRequest_def split: sum.splits)
  qed
  from refresh_twice [of h queue] a b c d f g show ?thesis
    unfolding vi_def qi_def va_def qa_def by blast
qed

theorem refresh_requests_conflate_witness:
  "snd (turn_item [StoreChanged (store_with stdout_hi), RefreshCall,
                   StoreChanged (store_with stdout_hi_there), RefreshCall]
          (new_OutputItemView 3 ''i1'', []))
     = [(3, RefreshRequest)]
   \<and> pendingRefreshes 3
       (snd (turn_item [StoreChanged (store_with stdout_hi), RefreshCall,
                        StoreChanged (store_with stdout_hi_there), RefreshCall]
               (new_OutputItemView 3 ''i1'', []))) = 1
   \<and> pendingRefreshes 3 (fold refresh [3, 4, 3, 3, 4] []) = 1"
proof -
  let ?es = "[StoreChanged (store_with stdout_hi), RefreshCall,
              StoreChanged (store_with stdout_hi_there), RefreshCall]"
  let ?v = "new_OutputItemView 3 ''i1''"
  have b: "view_ref ?v = 3" by (simp add: new_OutputItemView_def)
  have m: "RefreshCall \<in> set ?es" by simp
  have a: "snd (turn_item ?es (?v, [])) = [(3, RefreshRequest)]"
    using turn_item_queue [of ?es ?v "[]"] m b by (simp only: refresh_empty)
  note inst = refresh_requests_conflate [of 3 "[]" "[3, 4, 3, 3, 4]" ?v ?es abc first_key]
  from inst have "pendingRefreshes 3 (fold refresh [3, 4, 3, 3, 4] [])
                   = (if (3::nat) \<in> set [3, 4, 3, 3, 4] then 1 else 0)"
    by (rule conjunct1 [OF conjunct2])
  then have c1: "pendingRefreshes 3 (fold refresh [3, 4, 3, 3, 4] []) = 1" by simp
  from inst have "RefreshCall \<in> set ?es \<longrightarrow>
        pendingRefreshes (view_ref ?v) (snd (turn_item ?es (?v, []))) = 1
        \<and> pendingRefreshes (area_view_ref abc) (snd (turn_area ?es (abc, []))) = 1"
    by (rule conjunct1 [OF conjunct2 [OF conjunct2 [OF conjunct2 [OF conjunct2]]]])
  with m have "pendingRefreshes (view_ref ?v) (snd (turn_item ?es (?v, []))) = 1" by blast
  then have c2: "pendingRefreshes 3 (snd (turn_item ?es (?v, []))) = 1" by (simp only: b)
  from a c1 c2 show ?thesis by blast
qed

section \<open>The first refresh of a new item view\<close>

text \<open>
  C8. A refresh handler reads the object the view holds, which the change handler stored
  at the last notification; the constructor stores the default and does not look the id
  up. An item view constructed for an id that the store holds, as the area view constructs
  one for each new id, therefore reads the empty item at its first refresh, and presents
  nothing, until a later change of the store reaches it.
\<close>

theorem fresh_item_view_reads_default:
  "outputItemTable (store_with stdout_hi) (itemId (new_OutputItemView 3 ''i1'')) = Some stdout_hi
   \<and> item (new_OutputItemView 3 ''i1'') = emptyItem
   \<and> item (new_OutputItemView 3 ''i1'') \<noteq> stdout_hi
   \<and> model_data (mimeModel (new_OutputItemView 3 ''i1'')) = []
   \<and> layout_widget (onRefreshRequest_item first_key (new_OutputItemView 3 ''i1'')) = None
   \<and> model_data (mimeModel
        (fst (onStoreChanged_item (store_with stdout_hi) (new_OutputItemView 3 ''i1'', []))))
       = [(''application/vnd.jupyter.stdout'', JString ''hi'')]"
  by code_simp

end
